theory Spec2Isabelle
  imports Main "HOL-Library.Word"
begin

unbundle bit_operations_syntax

section \<open>Host AHCI driver: data model\<close>

text \<open>
  Shallow embedding of \<^verbatim>\<open>vancouver/host/hostahci.cc\<close>. The target is 32-bit x86:
  \<^verbatim>\<open>unsigned\<close>, \<^verbatim>\<open>unsigned long\<close> and pointers are 32-bit words, \<^verbatim>\<open>unsigned long long\<close>
  and \<^verbatim>\<open>timevalue\<close> are 64-bit words, \<^verbatim>\<open>unsigned short\<close> is 16 bits, \<^verbatim>\<open>unsigned char\<close> 8 bits.
  Arithmetic on them wraps around as in the source.
\<close>

type_synonym u8 = "8 word"
type_synonym u16 = "16 word"
type_synonym u32 = "32 word"
type_synonym u64 = "64 word"
type_synonym timevalue = "64 word"

text \<open>
  The ways a call can end without returning to its caller: \<^verbatim>\<open>Logging::panic\<close>, a failed
  \<^verbatim>\<open>assert\<close>, a division by zero, and \<open>TraceEnd\<close>: the recorded answers of the device or
  of the clock ran out before the call returned (the model's fuel for the polling loops).
\<close>

datatype error = Panic | AssertFailed | DivideError | TraceEnd

text \<open>The named registers of \<^verbatim>\<open>union HostAhciPortRegister\<close>.\<close>

datatype preg = CLB | CLBU | FB | FBU | IS | IE | CMD | RES0 | TFD | SIG | SSTS | SCTL
  | SERR | SACT | CI | SNTF | FBS

text \<open>
  \<^verbatim>\<open>HostGenericAta\<close> (host/hostgenericata.h) is not part of the source at hand; the driver
  reads only its \<^verbatim>\<open>_lba48\<close> member.
\<close>

record ata_params =
  lba48 :: bool

record dma_descriptor =
  byteoffset :: u32
  bytecount :: u32

text \<open>
  \<^verbatim>\<open>MessageDisk\<close>: the four request types the driver names; \<open>DISK_UNKNOWN\<close> stands for
  any other value of \<^verbatim>\<open>msg.type\<close> (the \<^verbatim>\<open>default:\<close> branch). \<^verbatim>\<open>dmacount\<close> is the length
  of \<open>dma\<close>.
\<close>

datatype disk_type = DISK_READ | DISK_WRITE | DISK_FLUSH_CACHE | DISK_GET_PARAMS | DISK_UNKNOWN

record message_disk =
  mtype :: disk_type
  disknr :: u32
  sector :: u64
  usertag :: u32
  dma :: "dma_descriptor list"
  physoffset :: u32
  physsize :: u32

datatype disk_status = DISK_OK

datatype message_disk_commit = MessageDiskCommit u32 u32 disk_status

text \<open>
  The state of one \<^verbatim>\<open>HostAhciPort\<close> together with its surroundings.

  The port registers are volatile device memory: \<open>regs_in r\<close> lists the values the device
  shows at the driver's successive reads of register \<open>r\<close>, and \<open>regs_out\<close> logs the
  driver's register writes in program order. \<open>clock_in\<close> lists the successive results of
  \<^verbatim>\<open>_clock->clock(FREQ)\<close>. \<open>bus_hostop\<close> answers \<^verbatim>\<open>OP_VIRT_TO_PHYS\<close> requests
  (\<open>None\<close>: \<^verbatim>\<open>send\<close> returned false; \<open>Some p\<close>: it set \<^verbatim>\<open>msg.phys = p\<close>), and
  \<open>bus_commit\<close> logs the messages sent on the commit bus in order.

  \<open>cl_ptr\<close>, \<open>ct_ptr\<close> and \<open>fis_ptr\<close> are the addresses \<^verbatim>\<open>_cl\<close>, \<^verbatim>\<open>_ct\<close>, \<^verbatim>\<open>_fis\<close>;
  \<open>cl\<close> and \<open>ct\<close> are the contents of the command list and of the command tables, by
  dword index from these addresses. \<open>usertags\<close> is \<^verbatim>\<open>_usertags\<close> by index. The source
  indexes these arrays and shifts by \<^verbatim>\<open>_tag\<close> without a check; where a property depends on
  the tag being a slot number, it says \<open>tag st < 32\<close>.
  \<open>update_params\<close> stands for \<^verbatim>\<open>HostGenericAta::update_params(buffer, false)\<close>, which
  is not part of the source at hand: from the IDENTIFY data it gives the result code and
  the new parameters.
\<close>

record port =
  regs_in :: "preg \<Rightarrow> u32 list"
  regs_out :: "(preg \<times> u32) list"
  clock_in :: "timevalue list"
  bus_hostop :: "u32 \<Rightarrow> u32 option"
  bus_commit :: "message_disk_commit list"
  port_disknr :: u32
  max_slots :: u32
  dmar :: bool
  cl_ptr :: u32
  ct_ptr :: u32
  fis_ptr :: u32
  cl :: "nat \<Rightarrow> u32"
  ct :: "nat \<Rightarrow> u32"
  tag :: u32
  params :: ata_params
  update_params :: "(nat \<Rightarrow> u16) \<Rightarrow> u32 \<times> ata_params"
  usertags :: "nat \<Rightarrow> u32"
  inprogress :: u32

definition CL_DWORDS :: u32 where
  "CL_DWORDS = 8"

definition MAX_PRD_COUNT :: u32 where
  "MAX_PRD_COUNT = 64"

definition FREQ :: u32 where
  "FREQ = 1000"

definition TIMEOUT :: u32 where
  "TIMEOUT = 200"

section \<open>Sequencing of calls that may fail\<close>

definition bindE :: "error + 'a \<Rightarrow> ('a \<Rightarrow> error + 'b) \<Rightarrow> error + 'b" where
  "bindE m f = (case m of Inl e \<Rightarrow> Inl e | Inr x \<Rightarrow> f x)"

text \<open>\<^verbatim>\<open>#define check2(X) { unsigned __res = X; if (__res) return __res; }\<close>\<close>

definition check2 :: "error + (u32 \<times> port) \<Rightarrow> (port \<Rightarrow> error + (u32 \<times> port)) \<Rightarrow> error + (u32 \<times> port)" where
  "check2 m k = bindE m (\<lambda>(res, st). if res \<noteq> 0 then Inr (res, st) else k st)"

section \<open>Register access\<close>

definition read_reg :: "preg \<Rightarrow> port \<Rightarrow> error + (u32 \<times> port)" where
  "read_reg r st =
     (case regs_in st r of
        [] \<Rightarrow> Inl TraceEnd
      | v # vs \<Rightarrow> Inr (v, st\<lparr>regs_in := (regs_in st)(r := vs)\<rparr>))"

definition write_reg :: "preg \<Rightarrow> u32 \<Rightarrow> port \<Rightarrow> port" where
  "write_reg r v st = st\<lparr>regs_out := regs_out st @ [(r, v)]\<rparr>"

text \<open>
  The loop of \<^verbatim>\<open>wait_timeout\<close>:
  \<^verbatim>\<open>while (((*reg & mask) != value) && _clock->clock(FREQ) < timeout) Cpu::pause();\<close>
  over the register's readings \<open>rs\<close> and the clock's readings \<open>cs\<close>. The clock is read
  only when the register test fails (\<^verbatim>\<open>&&\<close>). The result is what is left of both.
\<close>

fun wait_loop :: "u32 \<Rightarrow> u32 \<Rightarrow> timevalue \<Rightarrow> u32 list \<Rightarrow> timevalue list
    \<Rightarrow> (u32 list \<times> timevalue list) option" where
  "wait_loop msk val timeout [] cs = None"
| "wait_loop msk val timeout (r # rs) cs =
     (if r AND msk \<noteq> val then
        (case cs of
           [] \<Rightarrow> None
         | c # cs' \<Rightarrow> if c < timeout then wait_loop msk val timeout rs cs' else Some (rs, cs'))
      else Some (rs, cs))"

definition wait_timeout :: "preg \<Rightarrow> u32 \<Rightarrow> u32 \<Rightarrow> port \<Rightarrow> error + (u32 \<times> port)" where
  "wait_timeout reg msk val st =
     (case clock_in st of
        [] \<Rightarrow> Inl TraceEnd
      | c0 # cs \<Rightarrow>
          (let timeout = c0 + ucast TIMEOUT in
           case wait_loop msk val timeout (regs_in st reg) cs of
             None \<Rightarrow> Inl TraceEnd
           | Some (rs, cs') \<Rightarrow>
               (case rs of
                  [] \<Rightarrow> Inl TraceEnd
                | r # rs' \<Rightarrow>
                    Inr (if r AND msk \<noteq> val then 1 else 0,
                         st\<lparr>regs_in := (regs_in st)(reg := rs'), clock_in := cs'\<rparr>))))"

section \<open>Building a command\<close>

text \<open>
  \<^verbatim>\<open>addr2phys\<close> gives the value it stores at \<^verbatim>\<open>dst[0]\<close>; its caller stores it and
  the zero of \<^verbatim>\<open>dst[1]\<close>.
\<close>

definition addr2phys :: "port \<Rightarrow> u32 \<Rightarrow> error + u32" where
  "addr2phys st ptr =
     (if \<not> dmar st then
        (case bus_hostop st ptr of
           None \<Rightarrow> Inl Panic
         | Some phys \<Rightarrow> if phys = 0 then Inl Panic else Inr phys)
      else Inr ptr)"

text \<open>The 20 bytes of \<^verbatim>\<open>cfis\<close>, each narrowed to \<^verbatim>\<open>unsigned char\<close>.\<close>

definition cfis :: "u8 \<Rightarrow> u64 \<Rightarrow> u32 \<Rightarrow> u32 \<Rightarrow> u32 \<Rightarrow> u8 list" where
  "cfis command sec cnt pmp features =
     [0x27, ucast (0x80 OR (pmp AND 0xf)), command, ucast features,
      ucast sec, ucast (drop_bit 8 sec), ucast (drop_bit 16 sec), 0x40,
      ucast (drop_bit 24 sec), ucast (drop_bit 32 sec), ucast (drop_bit 40 sec),
        ucast (drop_bit 8 features),
      ucast cnt, ucast (drop_bit 8 cnt), 0, 0,
      0, 0, 0, 0]"

text \<open>Four bytes as they lie in one dword of little-endian memory.\<close>

definition le32 :: "u8 \<Rightarrow> u8 \<Rightarrow> u8 \<Rightarrow> u8 \<Rightarrow> u32" where
  "le32 b0 b1 b2 b3 =
     ucast b0 OR push_bit 8 (ucast b1) OR push_bit 16 (ucast b2) OR push_bit 24 (ucast b3)"

text \<open>\<^verbatim>\<open>memcpy\<close> of a byte array to dword-indexed memory, from dword index \<open>i\<close>.\<close>

fun memcpy_dwords :: "(nat \<Rightarrow> u32) \<Rightarrow> nat \<Rightarrow> u8 list \<Rightarrow> (nat \<Rightarrow> u32)" where
  "memcpy_dwords m i (b0 # b1 # b2 # b3 # bs) = memcpy_dwords (m(i := le32 b0 b1 b2 b3)) (Suc i) bs"
| "memcpy_dwords m i bs = m"

definition set_command :: "u8 \<Rightarrow> u64 \<Rightarrow> bool \<Rightarrow> u32 \<Rightarrow> bool \<Rightarrow> u32 \<Rightarrow> u32 \<Rightarrow> port
    \<Rightarrow> error + port" where
  "set_command command sec read cnt atapi pmp features st =
     (let st1 = st\<lparr>cl := (cl st)(unat (tag st * CL_DWORDS + 0) :=
                   (if atapi then 0x20 else 0) OR (if read then 0 else 0x40) OR 5
                     OR push_bit 12 (pmp AND 0xf))\<rparr>;
          st2 = st1\<lparr>cl := (cl st1)(unat (tag st * CL_DWORDS + 1) := 0)\<rparr>;
          tbl = tag st * (128 + MAX_PRD_COUNT * 16) div 4;
          dst = unat (tag st * CL_DWORDS + 2)
      in bindE (addr2phys st2 (ct_ptr st + 4 * tbl))
           (\<lambda>v. let st3 = st2\<lparr>cl := (cl st2)(dst := v, dst + 1 := 0)\<rparr>
                in Inr (st3\<lparr>ct := memcpy_dwords (ct st3) (unat tbl)
                                   (cfis command sec cnt pmp features)\<rparr>)))"

definition add_dma :: "u32 \<Rightarrow> u32 \<Rightarrow> port \<Rightarrow> error + (bool \<times> port)" where
  "add_dma ptr cnt st =
     (if cnt AND 1 \<noteq> 0 \<or> drop_bit 22 cnt \<noteq> 0 then Inr (True, st)
      else
        let prd = drop_bit 16 (cl st (unat (tag st * CL_DWORDS))) in
        if prd \<ge> MAX_PRD_COUNT then Inr (True, st)
        else
          let st1 = st\<lparr>cl := (cl st)(unat (tag st * CL_DWORDS) :=
                        cl st (unat (tag st * CL_DWORDS)) + push_bit 16 1)\<rparr>;
              p = unat (drop_bit 2 (tag st * (128 + MAX_PRD_COUNT * 16) + 0x80 + prd * 16))
          in bindE (addr2phys st1 ptr)
               (\<lambda>v. Inr (False, st1\<lparr>ct := (ct st1)(p := v, p + 1 := 0, p + 3 := cnt - 1)\<rparr>)))"

definition add_prd :: "u32 \<Rightarrow> u32 \<Rightarrow> port \<Rightarrow> error + (bool \<times> port)" where
  "add_prd buffer cnt st =
     (let prd = drop_bit 16 (cl st (unat (tag st * CL_DWORDS))) in
      if \<not> (NOT cnt AND 1 \<noteq> 0) then Inl AssertFailed
      else if \<not> (drop_bit 22 cnt = 0) then Inl AssertFailed
      else if prd \<ge> MAX_PRD_COUNT then Inr (True, st)
      else
        let st1 = st\<lparr>cl := (cl st)(unat (tag st * CL_DWORDS) :=
                      cl st (unat (tag st * CL_DWORDS)) + push_bit 16 1)\<rparr>;
            p = unat (drop_bit 2 (tag st * (128 + MAX_PRD_COUNT * 16) + 0x80 + prd * 16))
        in bindE (addr2phys st1 buffer)
             (\<lambda>v. Inr (False, st1\<lparr>ct := (ct st1)(p := v, p + 1 := 0, p + 3 := cnt - 1)\<rparr>)))"

text \<open>
  \<^verbatim>\<open>start_command\<close>. The remainder by \<^verbatim>\<open>_max_slots\<close> traps when that is zero.
\<close>

definition start_command :: "u32 \<Rightarrow> port \<Rightarrow> error + (u32 \<times> port)" where
  "start_command utag st =
     (let st1 = st\<lparr>inprogress := inprogress st OR push_bit (unat (tag st)) 1\<rparr>;
          st2 = st1\<lparr>usertags := (usertags st1)(unat (tag st) := utag)\<rparr>;
          st3 = write_reg CI (push_bit (unat (tag st)) 1) st2;
          res = tag st
      in if max_slots st = 0 then Inl DivideError
         else Inr (res, st3\<lparr>tag := (tag st + 1) mod max_slots st\<rparr>))"

text \<open>
  \<^verbatim>\<open>identify_drive\<close>. The buffer is the caller's memory at address \<open>buffer\<close>, cleared by
  \<^verbatim>\<open>memset\<close> and then filled by the device; \<open>devdata\<close> is what the buffer holds when the
  wait has returned. The result of \<^verbatim>\<open>add_prd\<close> is ignored, as in the source.
\<close>

definition identify_drive :: "u32 \<Rightarrow> (nat \<Rightarrow> u16) \<Rightarrow> port \<Rightarrow> error + (u32 \<times> port)" where
  "identify_drive buffer devdata st =
     bindE (set_command 0xec 0 True 0 False 0 0 st) (\<lambda>st1.
     bindE (add_prd buffer 512 st1) (\<lambda>(_, st2).
     bindE (start_command 0 st2) (\<lambda>(t, st3).
     check2 (wait_timeout CI (push_bit (unat t) 1) 0 st3) (\<lambda>st4.
       let st5 = st4\<lparr>inprogress := inprogress st4 AND NOT (push_bit (unat t) 1)\<rparr> in
       if devdata 2 \<noteq> 0xc837 then Inl AssertFailed
       else let (res, p) = update_params st5 devdata in Inr (res, st5\<lparr>params := p\<rparr>)))))"

definition set_features :: "u32 \<Rightarrow> u32 \<Rightarrow> port \<Rightarrow> error + (u32 \<times> port)" where
  "set_features features cnt st =
     bindE (set_command 0xef 0 False cnt False 0 features st) (\<lambda>st1.
     bindE (start_command 0 st1) (\<lambda>(t, st2).
     check2 (wait_timeout CI (push_bit (unat t) 1) 0 st2) (\<lambda>st3.
       Inr (0, st3\<lparr>inprogress := inprogress st3 AND NOT (push_bit (unat t) 1)\<rparr>))))"

section \<open>Port initialisation\<close>

text \<open>A read-modify-write of a register, as in \<^verbatim>\<open>_regs->cmd &= ~1\<close>.\<close>

definition modify_reg :: "preg \<Rightarrow> (u32 \<Rightarrow> u32) \<Rightarrow> port \<Rightarrow> error + port" where
  "modify_reg r f st = bindE (read_reg r st) (\<lambda>(v, st1). Inr (write_reg r (f v) st1))"

text \<open>The block of \<^verbatim>\<open>init\<close> under \<^verbatim>\<open>if (_regs->cmd & 0xc009)\<close>; 0 when it runs through.\<close>

definition init_stop :: "port \<Rightarrow> error + (u32 \<times> port)" where
  "init_stop st =
     bindE (read_reg CMD st) (\<lambda>(c, st1).
       if c AND 0xc009 \<noteq> 0 then
         bindE (modify_reg CMD (\<lambda>v. v AND NOT 1) st1) (\<lambda>st2.
         check2 (wait_timeout CMD (push_bit 15 1) 0 st2) (\<lambda>st3.
         bindE (modify_reg CMD (\<lambda>v. v AND NOT 0x10) st3) (\<lambda>st4.
         check2 (wait_timeout CMD (push_bit 14 1) 0 st4) (\<lambda>st5. Inr (0, st5)))))
       else Inr (0, st1))"

text \<open>
  The body of \<^verbatim>\<open>init\<close> from "set CL and FIS pointer" to "enable irqs"; 0 when it runs
  through.
\<close>

definition init_regs :: "port \<Rightarrow> error + (u32 \<times> port)" where
  "init_regs st1 =
     bindE (addr2phys st1 (cl_ptr st1)) (\<lambda>v1.
     let st2 = write_reg CLBU 0 (write_reg CLB v1 st1) in
     bindE (addr2phys st2 (fis_ptr st2)) (\<lambda>v2.
     let st3 = write_reg FBU 0 (write_reg FB v2 st2);
         st4 = write_reg SERR (NOT 0) st3;
         st5 = write_reg IS (NOT 0) st4
     in
     bindE (modify_reg CMD (\<lambda>v. v OR 0x10) st5) (\<lambda>st6.
     check2 (wait_timeout CMD (push_bit 15 1) 0 st6) (\<lambda>st7.
     bindE (modify_reg CMD (\<lambda>v. v OR 0x8) st7) (\<lambda>st8.
     check2 (wait_timeout CMD 0x8 0 st8) (\<lambda>st9.
     bindE (modify_reg CMD (\<lambda>v. v OR 0x1) st9) (\<lambda>st10.
     let st11 = st10\<lparr>inprogress := 0\<rparr>;
         st12 = write_reg IE 0xf98000f1 st11
     in Inr (0, st12))))))))"

text \<open>\<^verbatim>\<open>init\<close>: the two parts above, then \<^verbatim>\<open>return identify_drive(buffer)\<close>.\<close>

definition init :: "u32 \<Rightarrow> (nat \<Rightarrow> u16) \<Rightarrow> port \<Rightarrow> error + (u32 \<times> port)" where
  "init buffer devdata st =
     check2 (init_stop st) (\<lambda>st1.
     check2 (init_regs st1) (\<lambda>st12.
     identify_drive buffer devdata st12))"

section \<open>Interrupt service\<close>

text \<open>
  Modelled from the spec: \<^verbatim>\<open>Cpu::bsf\<close> is not part of the source at hand; the spec has
  the set bits visited "lowest bit first using bit-scan". \<open>bsf w\<close> is the index of the
  lowest set bit of \<open>w\<close>. The driver never calls it with 0.
\<close>

definition bsf :: "u32 \<Rightarrow> nat" where
  "bsf w = length (takeWhile (\<lambda>n. \<not> bit w n) [0..<32])"

text \<open>
  The loop of \<^verbatim>\<open>irq\<close>:
  \<^verbatim>\<open>for (unsigned done = ..., tag; done; done &= ~(1 << tag)) { tag = Cpu::bsf(done); ... }\<close>
\<close>

function irq_loop :: "u32 \<Rightarrow> port \<Rightarrow> port" where
  "irq_loop dn st =
     (if dn = 0 then st
      else
        let t = bsf dn;
            st1 = st\<lparr>bus_commit := bus_commit st @
                    [MessageDiskCommit (port_disknr st) (usertags st t) DISK_OK]\<rparr>;
            st2 = st1\<lparr>usertags := (usertags st1)(t := NOT 0)\<rparr>;
            st3 = st2\<lparr>inprogress := inprogress st2 AND NOT (push_bit t 1)\<rparr>
        in irq_loop (dn AND NOT (push_bit t 1)) st3)"
  by pat_completeness auto

text \<open>
  \<^verbatim>\<open>irq\<close>. \<open>buffer\<close> is the address of the local \<^verbatim>\<open>unsigned short buffer[256]\<close> and
  \<open>devdata\<close> what the device leaves in it, should \<^verbatim>\<open>init\<close> run. The second read of TFD is
  the argument of \<^verbatim>\<open>Logging::printf\<close>. The result of \<^verbatim>\<open>init\<close> is dropped.
\<close>

definition irq :: "u32 \<Rightarrow> (nat \<Rightarrow> u16) \<Rightarrow> port \<Rightarrow> error + port" where
  "irq buffer devdata st =
     bindE (read_reg IS st) (\<lambda>(isv, st1).
     let st2 = write_reg IS isv st1 in
     bindE (read_reg CI st2) (\<lambda>(civ, st3).
     let st4 = irq_loop (inprogress st3 AND NOT civ) st3 in
     bindE (read_reg TFD st4) (\<lambda>(tfdv, st5).
       if tfdv AND 1 \<noteq> 0 then
         bindE (read_reg TFD st5) (\<lambda>(_, st6).
         bindE (init buffer devdata st6) (\<lambda>(_, st7). Inr st7))
       else Inr st5)))"

section \<open>Requests\<close>

text \<open>
  Modelled from the spec: \<^verbatim>\<open>DmaDescriptor::sum_length\<close> is not part of the source at
  hand; the spec has the "total transfer length" as the sum of the lengths of the
  scatter/gather list. The result is an \<^verbatim>\<open>unsigned long\<close>.
\<close>

definition sum_length :: "dma_descriptor list \<Rightarrow> u32" where
  "sum_length ds = sum_list (map bytecount ds)"

text \<open>
  The descriptor loop of \<^verbatim>\<open>receive\<close>: \<open>False\<close> where the source leaves with
  \<^verbatim>\<open>return false\<close>, \<open>True\<close> when the loop has run to its end.
\<close>

fun dma_loop :: "message_disk \<Rightarrow> dma_descriptor list \<Rightarrow> port \<Rightarrow> error + (bool \<times> port)" where
  "dma_loop msg [] st = Inr (True, st)"
| "dma_loop msg (d # ds) st =
     (if byteoffset d > physsize msg \<or> byteoffset d + bytecount d > physsize msg
      then Inr (False, st)
      else bindE (add_dma (physoffset msg + byteoffset d) (bytecount d) st)
             (\<lambda>(failed, st1). if failed then Inr (False, st1) else dma_loop msg ds st1))"

text \<open>The \<^verbatim>\<open>DISK_READ\<close> / \<^verbatim>\<open>DISK_WRITE\<close> branch of \<^verbatim>\<open>receive\<close>.\<close>

definition receive_rw :: "message_disk \<Rightarrow> port \<Rightarrow> error + (bool \<times> port)" where
  "receive_rw msg st =
     (let len = sum_length (dma msg) in
      if len AND 0x1ff \<noteq> 0 then Inr (False, st)
      else
        let command0 = (if lba48 (params st) then 0x25 else 0xc8);
            command = (if mtype msg = DISK_WRITE
                       then (if lba48 (params st) then 0x35 else 0xca) else command0)
        in
        bindE (set_command command (sector msg) (mtype msg \<noteq> DISK_WRITE) (drop_bit 9 len)
                 False 0 0 st) (\<lambda>st1.
        bindE (dma_loop msg (dma msg) st1) (\<lambda>(ok, st2).
          if \<not> ok then Inr (False, st2)
          else bindE (start_command (usertag msg) st2) (\<lambda>(_, st3). Inr (True, st3)))))"

text \<open>
  \<^verbatim>\<open>receive\<close>. \<^verbatim>\<open>get_disk_parameter\<close> fills the caller's structure and leaves the port
  as it is.
\<close>

definition receive :: "message_disk \<Rightarrow> port \<Rightarrow> error + (bool \<times> port)" where
  "receive msg st =
     (if disknr msg \<noteq> port_disknr st then Inr (False, st)
      else
        case mtype msg of
          DISK_READ \<Rightarrow> receive_rw msg st
        | DISK_WRITE \<Rightarrow> receive_rw msg st
        | DISK_FLUSH_CACHE \<Rightarrow>
            bindE (set_command (if lba48 (params st) then 0xea else 0xe7) 0 True 0 False 0 0 st)
              (\<lambda>st1. bindE (start_command 0 st1) (\<lambda>(_, st2). Inr (True, st2)))
        | DISK_GET_PARAMS \<Rightarrow> Inr (True, st)
        | DISK_UNKNOWN \<Rightarrow> Inl Panic)"

section \<open>Construction\<close>

text \<open>
  The constructor of \<^verbatim>\<open>HostAhciPort\<close>. \<open>raw\<close> is the object as the allocator hands it
  over: members outside the initialiser list (\<^verbatim>\<open>_params\<close>, \<^verbatim>\<open>_usertags\<close>,
  \<^verbatim>\<open>_inprogress\<close>) and the contents of the memory from \<^verbatim>\<open>memalign\<close> keep what \<open>raw\<close>
  holds. \<open>fis_a\<close>, \<open>cl_a\<close>, \<open>ct_a\<close> are the three addresses \<^verbatim>\<open>memalign\<close> returns. The logs
  of register writes and of commit messages start empty.
\<close>

definition HostAhciPort :: "port \<Rightarrow> (preg \<Rightarrow> u32 list) \<Rightarrow> (u32 \<Rightarrow> u32 option) \<Rightarrow> timevalue list
    \<Rightarrow> u32 \<Rightarrow> u32 \<Rightarrow> bool \<Rightarrow> u32 \<Rightarrow> u32 \<Rightarrow> u32 \<Rightarrow> port" where
  "HostAhciPort raw regs hostop clock nr slots dmar_on fis_a cl_a ct_a =
     raw\<lparr>regs_in := regs, regs_out := [], clock_in := clock, bus_hostop := hostop,
         bus_commit := [], port_disknr := nr, max_slots := slots, dmar := dmar_on,
         tag := 0, fis_ptr := fis_a, cl_ptr := cl_a, ct_ptr := ct_a\<rparr>"

text \<open>
  The slot count \<^verbatim>\<open>create_ahci_port\<close> passes to the constructor, from the value read from
  \<^verbatim>\<open>_regs->cap\<close>.
\<close>

definition cap_max_slots :: "u32 \<Rightarrow> u32" where
  "cap_max_slots cap = (drop_bit 8 cap AND 0x1f) + 1"

text \<open>
  The mapping part of the constructor of \<^verbatim>\<open>HostAhci\<close>, up to \<^verbatim>\<open>_regs_high\<close>.
  \<open>conf_read\<close> is \<^verbatim>\<open>pci.conf_read(_bdf, .)\<close>, \<open>alloc_iomem value len\<close> answers an
  \<^verbatim>\<open>OP_ALLOC_IOMEM\<close> request (\<open>None\<close>: \<^verbatim>\<open>send\<close> returned false; \<open>Some p\<close>: it set
  \<^verbatim>\<open>msg.ptr = p\<close>), \<open>pi_val\<close> is the value read from \<^verbatim>\<open>_regs->pi\<close>. The result has
  \<^verbatim>\<open>_regs\<close>, \<^verbatim>\<open>_regs_high\<close> and the requests sent, in order.
\<close>

record hba_mapping =
  hba_regs :: u32
  hba_regs_high :: u32
  iomem_requests :: "(u32 \<times> u32) list"

definition HostAhci_map :: "(u32 \<Rightarrow> u32) \<Rightarrow> (u32 \<Rightarrow> u32 \<Rightarrow> u32 option) \<Rightarrow> u32
    \<Rightarrow> error + hba_mapping" where
  "HostAhci_map conf_read alloc_iomem pi_val =
     (if \<not> (NOT (conf_read 4) AND 6 = 0) then Inl AssertFailed
      else
        let bar = conf_read 0x24 in
        if \<not> (bar AND 7 = 0) then Inl AssertFailed
        else
          case alloc_iomem bar 0x1000 of
            None \<Rightarrow> Inl Panic
          | Some p \<Rightarrow>
              if p = 0 then Inl Panic
              else if drop_bit 30 pi_val \<noteq> 0 then
                (case alloc_iomem (bar + 0x1000) 0x1000 of
                   None \<Rightarrow> Inl Panic
                 | Some p2 \<Rightarrow>
                     if p2 = 0 then Inl Panic
                     else Inr \<lparr>hba_regs = p, hba_regs_high = p2 + (bar AND 0xfe0),
                               iomem_requests = [(bar, 0x1000), (bar + 0x1000, 0x1000)]\<rparr>)
              else Inr \<lparr>hba_regs = p, hba_regs_high = 0, iomem_requests = [(bar, 0x1000)]\<rparr>)"

section \<open>Notions the properties are stated with\<close>

text \<open>The PRD count of the current slot, \<^verbatim>\<open>_cl[_tag*CL_DWORDS] >> 16\<close>.\<close>

definition prd_count :: "port \<Rightarrow> u32" where
  "prd_count st = drop_bit 16 (cl st (unat (tag st * CL_DWORDS)))"

text \<open>
  A port fresh from the constructor on zeroed memory, without IOMMU, on a host that
  translates the virtual address \<open>a\<close> to \<open>a + 0x10000000\<close>, with no device or clock
  readings recorded; \<open>update_params\<close> takes LBA48 from bit 10 of word 83 of the IDENTIFY
  data and returns 0.
\<close>

definition zero_port :: port where
  "zero_port = \<lparr>regs_in = (\<lambda>_. []), regs_out = [], clock_in = [], bus_hostop = (\<lambda>_. None),
     bus_commit = [], port_disknr = 0, max_slots = 0, dmar = False, cl_ptr = 0, ct_ptr = 0,
     fis_ptr = 0, cl = (\<lambda>_. 0), ct = (\<lambda>_. 0), tag = 0, params = \<lparr>lba48 = False\<rparr>,
     update_params = (\<lambda>d. (0, \<lparr>lba48 = bit (d 83) 10\<rparr>)), usertags = (\<lambda>_. 0),
     inprogress = 0\<rparr>"

definition fresh_port :: "u32 \<Rightarrow> u32 \<Rightarrow> port" where
  "fresh_port nr slots =
     HostAhciPort zero_port (\<lambda>_. []) (\<lambda>a. Some (a + 0x10000000)) [] nr slots False
       0x300000 0x100000 0x200000"

text \<open>
  \<open>tables_only st st'\<close>: \<open>st'\<close> differs from \<open>st\<close> at most in the contents of the command
  list and of the command tables.
\<close>

definition tables_only :: "port \<Rightarrow> port \<Rightarrow> bool" where
  "tables_only st st' \<longleftrightarrow> st' = st\<lparr>cl := cl st', ct := ct st'\<rparr>"

text \<open>
  A descriptor that passes the bounds test of \<^verbatim>\<open>receive\<close> and the two byte-count tests of
  \<^verbatim>\<open>add_dma\<close>.
\<close>

definition desc_ok :: "message_disk \<Rightarrow> dma_descriptor \<Rightarrow> bool" where
  "desc_ok msg d \<longleftrightarrow>
     byteoffset d \<le> physsize msg \<and> byteoffset d + bytecount d \<le> physsize msg \<and>
     even (unat (bytecount d)) \<and> unat (bytecount d) < 2 ^ 22"

text \<open>The command byte (byte 2) of the command FIS of slot \<open>t\<close>.\<close>

definition fis_command :: "port \<Rightarrow> u32 \<Rightarrow> u8" where
  "fis_command st t = ucast (drop_bit 16 (ct st (unat t * 288)))"

text \<open>
  Sample requests. \<open>read_513\<close>: a read of one descriptor of 513 bytes.
\<close>

definition read_513 :: message_disk where
  "read_513 = \<lparr>mtype = DISK_READ, disknr = 0, sector = 42, usertag = 0xabcd,
     dma = [\<lparr>byteoffset = 0, bytecount = 513\<rparr>], physoffset = 0x5000, physsize = 0x1000\<rparr>"

text \<open>
  \<open>read_4096\<close>: a read of 4096 bytes in one descriptor; \<open>write_4096\<close>: a write of two
  descriptors of 2048 bytes; \<open>flush_abcd\<close>: a cache flush with caller tag 0xabcd.
\<close>

definition read_4096 :: message_disk where
  "read_4096 = \<lparr>mtype = DISK_READ, disknr = 0, sector = 42, usertag = 0xabcd,
     dma = [\<lparr>byteoffset = 0, bytecount = 4096\<rparr>], physoffset = 0x5000, physsize = 0x1000\<rparr>"

definition write_4096 :: message_disk where
  "write_4096 = \<lparr>mtype = DISK_WRITE, disknr = 0, sector = 0, usertag = 7,
     dma = [\<lparr>byteoffset = 0, bytecount = 2048\<rparr>, \<lparr>byteoffset = 2048, bytecount = 2048\<rparr>],
     physoffset = 0x5000, physsize = 0x1000\<rparr>"

definition flush_abcd :: message_disk where
  "flush_abcd = \<lparr>mtype = DISK_FLUSH_CACHE, disknr = 0, sector = 0, usertag = 0xabcd,
     dma = [], physoffset = 0, physsize = 0\<rparr>"

text \<open>
  \<open>read_out_of_bounds\<close>: a read of two descriptors of 2048 bytes, the second beyond the
  caller's region of 0x1000 bytes.
\<close>

definition read_out_of_bounds :: message_disk where
  "read_out_of_bounds = \<lparr>mtype = DISK_READ, disknr = 0, sector = 42, usertag = 0xabcd,
     dma = [\<lparr>byteoffset = 0, bytecount = 2048\<rparr>, \<lparr>byteoffset = 4096, bytecount = 2048\<rparr>],
     physoffset = 0x5000, physsize = 0x1000\<rparr>"

text \<open>\<open>read_empty\<close>: a read whose only descriptor has byte count zero.\<close>

definition read_empty :: message_disk where
  "read_empty = \<lparr>mtype = DISK_READ, disknr = 0, sector = 42, usertag = 0xabcd,
     dma = [\<lparr>byteoffset = 16, bytecount = 0\<rparr>], physoffset = 0x5000, physsize = 0x1000\<rparr>"

text \<open>
  \<open>polls msk val deadline rs cs n\<close>: the loop of \<^verbatim>\<open>wait_timeout\<close> goes through \<open>n\<close> rounds
  on the register readings \<open>rs\<close> and the clock readings \<open>cs\<close>: in each, the register
  fails the test and the clock is below the deadline. \<open>loop_exit ... n cs'\<close>: after these
  \<open>n\<close> rounds the loop ends at register reading \<open>n\<close>, which passes the test, or fails it
  with the clock at or past the deadline; \<open>cs'\<close> are the clock readings left.
\<close>

definition polls :: "u32 \<Rightarrow> u32 \<Rightarrow> timevalue \<Rightarrow> u32 list \<Rightarrow> timevalue list \<Rightarrow> nat \<Rightarrow> bool" where
  "polls msk val deadline rs cs n \<longleftrightarrow>
     (\<forall>i<n. rs ! i AND msk \<noteq> val \<and> i < length cs \<and> cs ! i < deadline)"

definition loop_exit :: "u32 \<Rightarrow> u32 \<Rightarrow> timevalue \<Rightarrow> u32 list \<Rightarrow> timevalue list \<Rightarrow> nat
    \<Rightarrow> timevalue list \<Rightarrow> bool" where
  "loop_exit msk val deadline rs cs n cs' \<longleftrightarrow>
     n < length rs \<and> polls msk val deadline rs cs n \<and>
     (rs ! n AND msk = val \<and> cs' = drop n cs
      \<or> rs ! n AND msk \<noteq> val \<and> n < length cs \<and> \<not> cs ! n < deadline \<and> cs' = drop (Suc n) cs)"

text \<open>
  \<open>wait_port rs cs\<close>: a fresh port that will read \<open>rs\<close> from every register and \<open>cs\<close>
  from the clock.
\<close>

definition wait_port :: "u32 list \<Rightarrow> timevalue list \<Rightarrow> port" where
  "wait_port rs cs = (fresh_port 0 32)\<lparr>regs_in := (\<lambda>_. rs), clock_in := cs\<rparr>"

text \<open>
  The indices of the set bits of a word, lowest first.
\<close>

definition bits_of :: "u32 \<Rightarrow> nat list" where
  "bits_of w = filter (bit w) [0..<32]"

text \<open>
  \<open>irq_port\<close>: a fresh port on which the next interrupt reads IS = 1, CI = 0 (every
  slot done) and TFD = 0x50 (no error).
\<close>

definition irq_port :: port where
  "irq_port = (fresh_port 0 32)\<lparr>regs_in := (\<lambda>_. [])(IS := [1], CI := [0], TFD := [0x50])\<rparr>"

text \<open>
  \<open>io_only st st'\<close>: \<open>st'\<close> differs from \<open>st\<close> at most in the register and clock readings
  left and in the log of register writes.
\<close>

definition io_only :: "port \<Rightarrow> port \<Rightarrow> bool" where
  "io_only st st' \<longleftrightarrow>
     st' = st\<lparr>regs_in := regs_in st', regs_out := regs_out st', clock_in := clock_in st'\<rparr>"

text \<open>
  IDENTIFY data of a drive that needs no spin-up (word 2 is 0xc837) and has bit 10 of word
  83 set.
\<close>

definition identify_data :: "nat \<Rightarrow> u16" where
  "identify_data n = (if n = 2 then 0xc837 else if n = 83 then 0x400 else 0)"


text \<open>
  The slot invariant of the spec, \<open>slots_inv\<close>: the number of set bits of \<open>inprogress\<close> is at
  most \<open>max_slots\<close>, and no bit at or above \<open>max_slots\<close> is set. \<open>port_inv\<close> adds what
  keeps it: \<open>max_slots\<close> is between 1 and 32 and the tag is below it.
\<close>

definition popcount :: "u32 \<Rightarrow> nat" where
  "popcount w = length (bits_of w)"

definition slots_inv :: "port \<Rightarrow> bool" where
  "slots_inv st \<longleftrightarrow>
     popcount (inprogress st) \<le> unat (max_slots st) \<and>
     inprogress st AND NOT (push_bit (unat (max_slots st)) 1 - 1) = 0"

definition port_inv :: "port \<Rightarrow> bool" where
  "port_inv st \<longleftrightarrow>
     1 \<le> max_slots st \<and> max_slots st \<le> 32 \<and> tag st < max_slots st \<and>
     inprogress st AND NOT (push_bit (unat (max_slots st)) 1 - 1) = 0"

text \<open>
  \<open>raw_port\<close>: memory in which the word of \<^verbatim>\<open>_inprogress\<close> holds 0xffffffff. \<open>stuck_port\<close>:
  the port the constructor makes of it for a controller with CAP = 0 (one slot), whose CMD
  register reads 0xc009 throughout while the clock reads 0 and then 200.
\<close>

definition raw_port :: port where
  "raw_port = zero_port\<lparr>inprogress := 0xffffffff\<rparr>"

definition stuck_port :: port where
  "stuck_port = HostAhciPort raw_port (\<lambda>_. [0xc009, 0xc009, 0xc009, 0xc009])
     (\<lambda>a. Some (a + 0x10000000)) [0, 200] 0 (cap_max_slots 0) False 0x300000 0x100000 0x200000"

section \<open>Termination of the completion loop\<close>

lemma bsf_bit: "dn \<noteq> 0 \<Longrightarrow> bit dn (bsf dn)"
proof -
  assume "dn \<noteq> 0"
  then obtain n where n: "bit dn n" by (auto simp: bit_eq_iff)
  then have "n < 32" using bit_imp_le_length[of dn n] by simp
  with n have ex: "\<not> (\<forall>x\<in>set [0..<32]. \<not> bit dn x)" by auto
  let ?k = "length (takeWhile (\<lambda>n. \<not> bit dn n) [0..<32])"
  have "takeWhile (\<lambda>n. \<not> bit dn n) [0..<32] \<noteq> [0..<32]"
    using ex by (simp only: takeWhile_eq_all_conv not_False_eq_True)
  then have "?k \<noteq> length [0..<32]"
    by (metis takeWhile_eq_take take_all order_refl)
  then have lt: "?k < length [0..<32]"
    using length_takeWhile_le[of "\<lambda>n. \<not> bit dn n" "[0..<32]"] by linarith
  have "\<not> \<not> bit dn ([0..<32] ! ?k)" using lt by (rule nth_length_takeWhile)
  moreover have "[0..<32] ! ?k = ?k" using lt by (metis add_0 length_upt nth_upt diff_zero)
  ultimately show ?thesis by (simp add: bsf_def)
qed

lemma clear_bit_less: "bit (w::u32) k \<Longrightarrow> unat (w AND NOT (push_bit k 1)) < unat w"
proof -
  assume b: "bit w k"
  have le: "w AND NOT (push_bit k 1) \<le> w" by (rule word_and_le2)
  have "\<not> bit (w AND NOT (push_bit k 1)) k" by (simp add: bit_simps)
  with b have "w AND NOT (push_bit k 1) \<noteq> w" by auto
  with le have "w AND NOT (push_bit k 1) < w" by simp
  then show ?thesis by (simp add: word_less_nat_alt)
qed

termination irq_loop
proof (relation "measure (\<lambda>(dn, st). unat dn)")
  show "wf (measure (\<lambda>(dn, st). unat dn))" by simp
next
  fix dn :: u32 and st :: port and x xa xb xc
  assume "dn \<noteq> 0" and "x = bsf dn"
  then have "unat (dn AND NOT (push_bit x 1)) < unat dn"
    using clear_bit_less[OF bsf_bit] by blast
  then show "((dn AND NOT (push_bit x 1), xc), dn, st) \<in> measure (\<lambda>(dn, st). unat dn)"
    by simp
qed

declare irq_loop.simps [simp del]

section \<open>Mapping the high ports\<close>

lemma drop_bit_30_iff: "drop_bit 30 (w::u32) \<noteq> 0 \<longleftrightarrow> bit w 30 \<or> bit w 31"
proof -
  have "drop_bit 30 w = 0 \<longleftrightarrow> (\<forall>n. \<not> bit (drop_bit 30 w) n)"
  proof
    assume "drop_bit 30 w = 0"
    then show "\<forall>n. \<not> bit (drop_bit 30 w) n" by simp
  next
    assume "\<forall>n. \<not> bit (drop_bit 30 w) n"
    then show "drop_bit 30 w = 0" by (intro bit_eqI) simp
  qed
  also have "\<dots> \<longleftrightarrow> (\<forall>n. \<not> bit w (n + 30))"
    by (simp add: bit_drop_bit_eq add.commute)
  also have "\<dots> \<longleftrightarrow> \<not> bit w 30 \<and> \<not> bit w 31"
  proof
    assume a: "\<forall>n. \<not> bit w (n + 30)"
    from a[rule_format, of 0] a[rule_format, of 1] show "\<not> bit w 30 \<and> \<not> bit w 31" by simp
  next
    assume a: "\<not> bit w 30 \<and> \<not> bit w 31"
    show "\<forall>n. \<not> bit w (n + 30)"
    proof
      fix n
      show "\<not> bit w (n + 30)"
      proof (cases "n < 2")
        case True
        then have "n = 0 \<or> n = 1" by auto
        with a show ?thesis by auto
      next
        case False
        then have "32 \<le> n + 30" by simp
        then show ?thesis using bit_imp_le_length[of w "n + 30"] by auto
      qed
    qed
  qed
  finally show ?thesis by blast
qed

text \<open>
  C3, as the source has it. When bit 30 or bit 31 of PI is set and the mapping succeeds,
  the driver has asked for 0x1000 bytes at ABAR and for a further 0x1000 bytes at
  ABAR + 0x1000, and the high-ports pointer is the second mapping plus \<open>ABAR AND 0xfe0\<close>
  (bits 5 to 11 of ABAR), where ABAR is the value read at PCI offset 0x24.
\<close>

theorem high_ports_mapping:
  assumes "HostAhci_map conf_read alloc_iomem pi_val = Inr m"
    and "bit pi_val 30 \<or> bit pi_val 31"
  shows "iomem_requests m = [(conf_read 0x24, 0x1000), (conf_read 0x24 + 0x1000, 0x1000)] \<and>
     (\<exists>p2. alloc_iomem (conf_read 0x24 + 0x1000) 0x1000 = Some p2 \<and>
        hba_regs_high m = p2 + (conf_read 0x24 AND 0xfe0))"
proof -
  from assms(2) have "drop_bit 30 pi_val \<noteq> 0" by (simp only: drop_bit_30_iff)
  with assms(1) show ?thesis
    by (auto simp: HostAhci_map_def Let_def split: if_splits option.splits)
qed

text \<open>
  The theorem at ABAR = 0xfebf1020 with PI = 0xc0000001, on a host that maps physical
  address \<open>v\<close> at \<open>v - 0x2ebf0000\<close>.
\<close>

theorem high_ports_mapping_witness:
  "HostAhci_map (\<lambda>r. if r = 4 then 6 else 0xfebf1020) (\<lambda>v l. Some (v - 0x2ebf0000)) 0xc0000001
     = Inr \<lparr>hba_regs = 0xd0001020, hba_regs_high = 0xd0002040,
            iomem_requests = [(0xfebf1020, 0x1000), (0xfebf2020, 0x1000)]\<rparr>
   \<and> bit (0xc0000001 :: u32) 30"
  using high_ports_mapping[of "\<lambda>r. if r = 4 then 6 else 0xfebf1020"
      "\<lambda>v l. Some (v - 0x2ebf0000)" "0xc0000001"]
  by (simp add: HostAhci_map_def)

text \<open>
  C3 as stated fails: there the second mapping is at 0xd0002020 and the low 5 bits of
  ABAR are zero, yet the high-ports pointer is 0xd0002040, not 0xd0002020.
\<close>

theorem high_ports_offset_counterexample:
  "HostAhci_map (\<lambda>r. if r = 4 then 6 else 0xfebf1020) (\<lambda>v l. Some (v - 0x2ebf0000)) 0xc0000001
     = Inr \<lparr>hba_regs = 0xd0001020, hba_regs_high = 0xd0002040,
            iomem_requests = [(0xfebf1020, 0x1000), (0xfebf2020, 0x1000)]\<rparr>
   \<and> (0xd0002040 :: u32) \<noteq> 0xd0002020 + (0xfebf1020 AND 0x1f)"
  by (simp add: HostAhci_map_def)

section \<open>Slot indices and byte counts\<close>

lemma cl_index:
  "t < 32 \<Longrightarrow> k < 8 \<Longrightarrow> unat ((t::u32) * CL_DWORDS + of_nat k) = unat t * 8 + k"
  by (simp add: CL_DWORDS_def word_less_nat_alt unat_word_ariths unat_of_nat)

lemma ct_index: "t < 32 \<Longrightarrow> unat ((t::u32) * (128 + MAX_PRD_COUNT * 16) div 4) = unat t * 288"
  by (simp add: MAX_PRD_COUNT_def word_less_nat_alt unat_word_ariths unat_div)

lemma prd_index:
  "t < 32 \<Longrightarrow> prd < MAX_PRD_COUNT \<Longrightarrow>
   unat (drop_bit 2 ((t::u32) * (128 + MAX_PRD_COUNT * 16) + 0x80 + prd * 16))
     = unat t * 288 + 32 + unat prd * 4"
  by (simp add: MAX_PRD_COUNT_def word_less_nat_alt unat_word_ariths unat_drop_bit_eq
      drop_bit_eq_div)

lemma odd_count: "(c::u32) AND 1 \<noteq> 0 \<longleftrightarrow> odd (unat c)"
proof -
  have "c AND 1 \<noteq> 0 \<longleftrightarrow> odd c" by (simp add: and_one_eq odd_iff_mod_2_eq_one)
  also have "\<dots> \<longleftrightarrow> odd (unat c)"
    by (simp add: even_iff_mod_2_eq_zero word_eq_iff_unsigned[where ?'a=nat] unat_mod)
  finally show ?thesis .
qed

lemma big_count: "drop_bit 22 (c::u32) \<noteq> 0 \<longleftrightarrow> 2 ^ 22 \<le> unat c"
proof -
  have "unat (drop_bit 22 c) = unat c div 2 ^ 22"
    unfolding unat_drop_bit_eq by (simp add: drop_bit_eq_div)
  moreover have "drop_bit 22 c \<noteq> 0 \<longleftrightarrow> unat (drop_bit 22 c) \<noteq> 0"
    by (simp only: unat_eq_0)
  ultimately show ?thesis by (auto simp add: div_eq_0_iff)
qed

lemma prd_incr:
  "drop_bit 16 (w::u32) < MAX_PRD_COUNT \<Longrightarrow>
   drop_bit 16 (w + push_bit 16 1) = drop_bit 16 w + 1 \<and>
   take_bit 16 (w + push_bit 16 1) = take_bit 16 w"
proof -
  assume a: "drop_bit 16 w < MAX_PRD_COUNT"
  have u: "unat (drop_bit 16 w) = unat w div 65536"
    unfolding unat_drop_bit_eq by (simp add: drop_bit_eq_div)
  from a have b: "unat w div 65536 < 64"
    unfolding word_less_nat_alt u by (simp add: MAX_PRD_COUNT_def)
  then have c: "unat w < 64 * 65536"
    by (simp add: less_mult_imp_div_less div_less_iff_less_mult)
  have s: "unat (w + push_bit 16 1) = unat w + 65536"
    using c by (simp add: unat_word_ariths)
  have "unat (drop_bit 16 (w + push_bit 16 1)) = unat (drop_bit 16 w + 1)"
    using b c unfolding unat_drop_bit_eq[of 16 "w + push_bit 16 1"] s
    by (simp add: unat_word_ariths u drop_bit_eq_div)
  moreover have "unat (take_bit 16 (w + push_bit 16 1)) = unat (take_bit 16 w)"
    unfolding unsigned_take_bit_eq s by (simp add: take_bit_eq_mod)
  ultimately show ?thesis by (simp only: word_unat_eq_iff)
qed

lemma even_count: "NOT (c::u32) AND 1 \<noteq> 0 \<longleftrightarrow> even (unat c)"
proof -
  have a: "c AND 1 = of_bool (bit c 0)" by (rule bit_eqI) (auto simp: bit_simps)
  have b: "NOT c AND 1 = of_bool (\<not> bit c 0)" by (rule bit_eqI) (auto simp: bit_simps)
  have "NOT c AND 1 \<noteq> 0 \<longleftrightarrow> \<not> (c AND 1 \<noteq> 0)" unfolding a b by simp
  then show ?thesis by (simp only: odd_count) simp
qed

lemma addr2phys_cl [simp]: "addr2phys (st\<lparr>cl := x\<rparr>) p = addr2phys st p"
  by (simp add: addr2phys_def)

section \<open>Appending a PRD entry\<close>

text \<open>
  C5. \<^verbatim>\<open>add_dma\<close> and \<^verbatim>\<open>add_prd\<close> fail when the byte count is odd or at least \<open>2^22\<close>
  (\<^verbatim>\<open>add_dma\<close> returns true, \<^verbatim>\<open>add_prd\<close> stops at its \<^verbatim>\<open>assert\<close>) and when the PRD count
  of the slot has reached \<open>MAX_PRD_COUNT\<close> (both return true); the port is then as before.
  Otherwise, when the buffer's address resolves, both return false, the PRD count (bits 16
  to 31 of dword 0 of the command header) is one more, and the entry (4 dwords, the
  entries starting 32 dwords into the slot's table of 288 dwords) holds the address, 0 in
  its second dword and the byte count minus one in its fourth.
\<close>

theorem prd_append:
  "(odd (unat cnt) \<or> 2 ^ 22 \<le> unat cnt \<longrightarrow>
      add_dma ptr cnt st = Inr (True, st) \<and> add_prd ptr cnt st = Inl AssertFailed)
   \<and> (even (unat cnt) \<and> unat cnt < 2 ^ 22 \<and> MAX_PRD_COUNT \<le> prd_count st \<longrightarrow>
      add_dma ptr cnt st = Inr (True, st) \<and> add_prd ptr cnt st = Inr (True, st))
   \<and> (even (unat cnt) \<and> unat cnt < 2 ^ 22 \<and> prd_count st < MAX_PRD_COUNT \<and> tag st < 32
        \<and> addr2phys st ptr = Inr v \<longrightarrow>
      (\<exists>st'. add_dma ptr cnt st = Inr (False, st') \<and> add_prd ptr cnt st = Inr (False, st')
         \<and> prd_count st' = prd_count st + 1
         \<and> ct st' (unat (tag st) * 288 + 32 + unat (prd_count st) * 4) = v
         \<and> ct st' (unat (tag st) * 288 + 32 + unat (prd_count st) * 4 + 1) = 0
         \<and> ct st' (unat (tag st) * 288 + 32 + unat (prd_count st) * 4 + 3) = cnt - 1))"
proof (intro conjI impI)
  assume a: "odd (unat cnt) \<or> 2 ^ 22 \<le> unat cnt"
  then have "cnt AND 1 \<noteq> 0 \<or> drop_bit 22 cnt \<noteq> 0" by (simp only: odd_count big_count)
  then show "add_dma ptr cnt st = Inr (True, st)" by (simp add: add_dma_def)
  from a have "\<not> (NOT cnt AND 1 \<noteq> 0) \<or> drop_bit 22 cnt \<noteq> 0"
    by (simp only: even_count big_count) 
  then show "add_prd ptr cnt st = Inl AssertFailed" by (auto simp add: add_prd_def Let_def)
next
  assume a: "even (unat cnt) \<and> unat cnt < 2 ^ 22 \<and> MAX_PRD_COUNT \<le> prd_count st"
  then have 1: "\<not> (cnt AND 1 \<noteq> 0)" "\<not> (drop_bit 22 cnt \<noteq> 0)"
    by (simp_all only: odd_count big_count not_le not_not)
  from a have 0: "NOT cnt AND 1 \<noteq> 0" by (simp only: even_count)
  from a have 2: "MAX_PRD_COUNT \<le> drop_bit 16 (cl st (unat (tag st * CL_DWORDS)))"
    by (simp add: prd_count_def)
  show "add_dma ptr cnt st = Inr (True, st)" using 0 1 2 by (simp add: add_dma_def Let_def)
  show "add_prd ptr cnt st = Inr (True, st)" using 0 1 2 by (simp add: add_prd_def Let_def)
next
  assume a: "even (unat cnt) \<and> unat cnt < 2 ^ 22 \<and> prd_count st < MAX_PRD_COUNT \<and> tag st < 32
        \<and> addr2phys st ptr = Inr v"
  then have 1: "\<not> (cnt AND 1 \<noteq> 0)" "\<not> (drop_bit 22 cnt \<noteq> 0)"
    by (simp_all only: odd_count big_count not_le not_not)
  from a have 0: "NOT cnt AND 1 \<noteq> 0" by (simp only: even_count)
  from a have 2: "\<not> MAX_PRD_COUNT \<le> drop_bit 16 (cl st (unat (tag st * CL_DWORDS)))"
    by (simp add: prd_count_def not_le)
  from a have 3: "drop_bit 16 (cl st (unat (tag st * CL_DWORDS))) < MAX_PRD_COUNT"
    by (simp add: prd_count_def)
  from a have p: "unat (drop_bit 2 (tag st * (128 + MAX_PRD_COUNT * 16) + 0x80 + prd_count st * 16))
     = unat (tag st) * 288 + 32 + unat (prd_count st) * 4"
    by (intro prd_index) simp_all
  from a have v: "addr2phys st ptr = Inr v" by simp
  let ?h = "unat (tag st * CL_DWORDS)"
  let ?st1 = "st\<lparr>cl := (cl st)(?h := cl st ?h + push_bit 16 1)\<rparr>"
  let ?p = "unat (tag st) * 288 + 32 + unat (prd_count st) * 4"
  let ?st' = "?st1\<lparr>ct := (ct ?st1)(?p := v, ?p + 1 := 0, ?p + 3 := cnt - 1)\<rparr>"
  have d: "add_dma ptr cnt st = Inr (False, ?st')"
    using 0 1 2 p v by (simp add: add_dma_def Let_def bindE_def prd_count_def)
  have e: "add_prd ptr cnt st = Inr (False, ?st')"
    using 0 1 2 p v by (simp add: add_prd_def Let_def bindE_def prd_count_def)
  have f: "prd_count ?st' = prd_count st + 1"
    using prd_incr[OF 3] by (simp add: prd_count_def)
  show "\<exists>st'. add_dma ptr cnt st = Inr (False, st') \<and> add_prd ptr cnt st = Inr (False, st')
         \<and> prd_count st' = prd_count st + 1
         \<and> ct st' (unat (tag st) * 288 + 32 + unat (prd_count st) * 4) = v
         \<and> ct st' (unat (tag st) * 288 + 32 + unat (prd_count st) * 4 + 1) = 0
         \<and> ct st' (unat (tag st) * 288 + 32 + unat (prd_count st) * 4 + 3) = cnt - 1"
    apply (rule exI[of _ ?st'])
    using d e f by simp
qed

text \<open>
  The theorem on a port fresh from the constructor: for 513 bytes, for 512 bytes with a
  full PRD table, and for 512 bytes with an empty one.
\<close>

theorem prd_append_witness:
  "odd (unat (513::u32))
   \<and> add_dma 0x5000 513 (fresh_port 0 32) = Inr (True, fresh_port 0 32)
   \<and> add_prd 0x5000 513 (fresh_port 0 32) = Inl AssertFailed
   \<and> MAX_PRD_COUNT \<le> prd_count ((fresh_port 0 32)\<lparr>cl := (\<lambda>_. 0x400000)\<rparr>)
   \<and> add_dma 0x5000 512 ((fresh_port 0 32)\<lparr>cl := (\<lambda>_. 0x400000)\<rparr>)
        = Inr (True, (fresh_port 0 32)\<lparr>cl := (\<lambda>_. 0x400000)\<rparr>)
   \<and> add_prd 0x5000 512 ((fresh_port 0 32)\<lparr>cl := (\<lambda>_. 0x400000)\<rparr>)
        = Inr (True, (fresh_port 0 32)\<lparr>cl := (\<lambda>_. 0x400000)\<rparr>)
   \<and> prd_count (fresh_port 0 32) < MAX_PRD_COUNT
   \<and> addr2phys (fresh_port 0 32) 0x5000 = Inr 0x10005000
   \<and> (\<exists>st'. add_dma 0x5000 512 (fresh_port 0 32) = Inr (False, st')
         \<and> add_prd 0x5000 512 (fresh_port 0 32) = Inr (False, st')
         \<and> prd_count st' = 1 \<and> ct st' 32 = 0x10005000 \<and> ct st' 33 = 0 \<and> ct st' 35 = 511)"
  using prd_append[of 513 "0x5000" "fresh_port 0 32"]
    prd_append[of 512 "0x5000" "(fresh_port 0 32)\<lparr>cl := (\<lambda>_. 0x400000)\<rparr>"]
    prd_append[of 512 "0x5000" "fresh_port 0 32" "0x10005000"]
  by (simp add: fresh_port_def HostAhciPort_def zero_port_def prd_count_def addr2phys_def
      MAX_PRD_COUNT_def CL_DWORDS_def)

section \<open>What building a command changes\<close>

lemma tables_only_refl: "tables_only st st"
  by (simp add: tables_only_def)

lemma tables_only_upd:
  "tables_only st st' \<Longrightarrow> tables_only st (st'\<lparr>cl := x\<rparr>) \<and> tables_only st (st'\<lparr>ct := y\<rparr>)"
  unfolding tables_only_def
proof -
  assume e: "st' = st\<lparr>cl := cl st', ct := ct st'\<rparr>"
  have 1: "st'\<lparr>cl := x\<rparr> = (st\<lparr>cl := cl st', ct := ct st'\<rparr>)\<lparr>cl := x\<rparr>"
    by (rule arg_cong[OF e])
  have 2: "st'\<lparr>ct := y\<rparr> = (st\<lparr>cl := cl st', ct := ct st'\<rparr>)\<lparr>ct := y\<rparr>"
    by (rule arg_cong[OF e])
  have 3: "ct (st'\<lparr>cl := x\<rparr>) = ct st'" "cl (st'\<lparr>ct := y\<rparr>) = cl st'" by simp_all
  show "st'\<lparr>cl := x\<rparr> = st\<lparr>cl := cl (st'\<lparr>cl := x\<rparr>), ct := ct (st'\<lparr>cl := x\<rparr>)\<rparr> \<and>
    st'\<lparr>ct := y\<rparr> = st\<lparr>cl := cl (st'\<lparr>ct := y\<rparr>), ct := ct (st'\<lparr>ct := y\<rparr>)\<rparr>"
    unfolding 3 using 1 2 by simp
qed

lemma tables_only_trans: "tables_only a b \<Longrightarrow> tables_only b c \<Longrightarrow> tables_only a c"
  unfolding tables_only_def
proof -
  assume 1: "b = a\<lparr>cl := cl b, ct := ct b\<rparr>" and 2: "c = b\<lparr>cl := cl c, ct := ct c\<rparr>"
  have "b\<lparr>cl := cl c, ct := ct c\<rparr> = (a\<lparr>cl := cl b, ct := ct b\<rparr>)\<lparr>cl := cl c, ct := ct c\<rparr>"
    by (rule arg_cong[OF 1])
  also have "\<dots> = a\<lparr>cl := cl c, ct := ct c\<rparr>" by simp
  finally show "c = a\<lparr>cl := cl c, ct := ct c\<rparr>" using 2 by simp
qed

lemma tables_only_fields:
  assumes "tables_only st st'"
  shows "tag st' = tag st" "inprogress st' = inprogress st" "usertags st' = usertags st"
    "regs_out st' = regs_out st" "regs_in st' = regs_in st" "clock_in st' = clock_in st"
    "bus_commit st' = bus_commit st" "bus_hostop st' = bus_hostop st"
    "max_slots st' = max_slots st" "params st' = params st" "dmar st' = dmar st"
    "port_disknr st' = port_disknr st" "ct_ptr st' = ct_ptr st" "cl_ptr st' = cl_ptr st"
    "fis_ptr st' = fis_ptr st" "update_params st' = update_params st"
proof -
  from assms have e: "st' = st\<lparr>cl := cl st', ct := ct st'\<rparr>" by (simp only: tables_only_def)
  show "tag st' = tag st" using arg_cong[OF e, of tag] by simp
  show "inprogress st' = inprogress st" using arg_cong[OF e, of inprogress] by simp
  show "usertags st' = usertags st" using arg_cong[OF e, of usertags] by simp
  show "regs_out st' = regs_out st" using arg_cong[OF e, of regs_out] by simp
  show "regs_in st' = regs_in st" using arg_cong[OF e, of regs_in] by simp
  show "clock_in st' = clock_in st" using arg_cong[OF e, of clock_in] by simp
  show "bus_commit st' = bus_commit st" using arg_cong[OF e, of bus_commit] by simp
  show "bus_hostop st' = bus_hostop st" using arg_cong[OF e, of bus_hostop] by simp
  show "max_slots st' = max_slots st" using arg_cong[OF e, of max_slots] by simp
  show "params st' = params st" using arg_cong[OF e, of params] by simp
  show "dmar st' = dmar st" using arg_cong[OF e, of dmar] by simp
  show "port_disknr st' = port_disknr st" using arg_cong[OF e, of port_disknr] by simp
  show "ct_ptr st' = ct_ptr st" using arg_cong[OF e, of ct_ptr] by simp
  show "cl_ptr st' = cl_ptr st" using arg_cong[OF e, of cl_ptr] by simp
  show "fis_ptr st' = fis_ptr st" using arg_cong[OF e, of fis_ptr] by simp
  show "update_params st' = update_params st" using arg_cong[OF e, of update_params] by simp
qed

lemma header_prd_zero:
  "drop_bit 16 ((if a then 0x20 else 0) OR (if r then 0 else 0x40) OR 5 OR push_bit 12 (p AND 0xf) :: u32) = 0"
proof -
  have m: "(0xf::u32) = mask 4" by (simp add: mask_eq_exp_minus_1)
  have "push_bit 12 (p AND 0xf) = take_bit 16 (push_bit 12 (p AND 0xf))"
    unfolding m by (simp add: take_bit_push_bit flip: take_bit_eq_mask)
  then obtain x :: u32 where x: "push_bit 12 (p AND 0xf) = take_bit 16 x" by blast
  have "(if a then 0x20 else 0) OR (if r then 0 else 0x40) OR 5 OR take_bit 16 x
     = take_bit 16 ((if a then 0x20 else 0) OR (if r then 0 else 0x40) OR 5 OR x :: u32)"
    by (cases a; cases r; simp)
  then show ?thesis unfolding x by (simp only: drop_bit_take_bit) simp
qed

lemma cl_index0: "t < 32 \<Longrightarrow> unat ((t::u32) * CL_DWORDS) = unat t * 8"
  using cl_index[of t 0] by simp
lemma cl_index1: "t < 32 \<Longrightarrow> unat ((t::u32) * CL_DWORDS + 1) = unat t * 8 + 1"
  using cl_index[of t 1] by simp
lemma cl_index2: "t < 32 \<Longrightarrow> unat ((t::u32) * CL_DWORDS + 2) = unat t * 8 + 2"
  using cl_index[of t 2] by simp

lemma set_command_result:
  assumes "tag st < 32" and "set_command c s r n a p f st = Inr st1"
  shows "tables_only st st1"
    and "cl st1 (unat (tag st) * 8) = (if a then 0x20 else 0) OR (if r then 0 else 0x40) OR 5 OR push_bit 12 (p AND 0xf)"
    and "cl st1 (unat (tag st) * 8 + 1) = 0"
    and "ct st1 (unat (tag st) * 288) = le32 0x27 (ucast (0x80 OR (p AND 0xf))) c (ucast f)"
    and "prd_count st1 = 0"
proof -
  note idx = cl_index0[OF assms(1)] cl_index1[OF assms(1)] cl_index2[OF assms(1)] ct_index[OF assms(1)]
  from assms(2) obtain v where
    st1: "st1 = st\<lparr>cl := (cl st)(unat (tag st) * 8 := (if a then 0x20 else 0) OR (if r then 0 else 0x40) OR 5 OR push_bit 12 (p AND 0xf),
                      unat (tag st) * 8 + 1 := 0, unat (tag st) * 8 + 2 := v, unat (tag st) * 8 + 2 + 1 := 0),
              ct := memcpy_dwords (ct st) (unat (tag st) * 288) (cfis c s n p f)\<rparr>"
    by (auto simp add: set_command_def Let_def bindE_def idx split: sum.splits)
  show "tables_only st st1" unfolding st1 by (simp add: tables_only_def)
  show h: "cl st1 (unat (tag st) * 8) = (if a then 0x20 else 0) OR (if r then 0 else 0x40) OR 5 OR push_bit 12 (p AND 0xf)"
    unfolding st1 by simp
  show "cl st1 (unat (tag st) * 8 + 1) = 0" unfolding st1 by simp
  show "ct st1 (unat (tag st) * 288) = le32 0x27 (ucast (0x80 OR (p AND 0xf))) c (ucast f)"
    unfolding st1 by (simp add: cfis_def)
  have "tag st1 = tag st" unfolding st1 by simp
  then show "prd_count st1 = 0"
    unfolding prd_count_def using h header_prd_zero[of a r p] by (simp add: idx)
qed

lemma add_dma_cases:
  assumes t: "tag st < 32" and r: "add_dma ptr cnt st = Inr (b, st')"
  shows "b \<longleftrightarrow> (odd (unat cnt) \<or> 2 ^ 22 \<le> unat cnt \<or> MAX_PRD_COUNT \<le> prd_count st)"
    and "b \<Longrightarrow> st' = st"
    and "\<not> b \<Longrightarrow> tables_only st st' \<and> prd_count st' = prd_count st + 1
          \<and> (\<forall>i. i \<noteq> unat (tag st) * 8 \<longrightarrow> cl st' i = cl st i)
          \<and> take_bit 16 (cl st' (unat (tag st) * 8)) = take_bit 16 (cl st (unat (tag st) * 8))
          \<and> (\<forall>k<32. ct st' (unat (tag st) * 288 + k) = ct st (unat (tag st) * 288 + k))
          \<and> ct st' (unat (tag st) * 288 + 32 + unat (prd_count st) * 4 + 3) = cnt - 1"
proof -
  note h = cl_index0[OF t]
  show b: "b \<longleftrightarrow> (odd (unat cnt) \<or> 2 ^ 22 \<le> unat cnt \<or> MAX_PRD_COUNT \<le> prd_count st)"
    using r unfolding add_dma_def Let_def bindE_def prd_count_def odd_count big_count
    by (auto split: if_splits sum.splits)
  show "b \<Longrightarrow> st' = st"
    using r unfolding add_dma_def Let_def bindE_def
    by (auto split: if_splits sum.splits)
  assume nb: "\<not> b"
  with b have c: "prd_count st < MAX_PRD_COUNT" by (simp add: not_le)
  then have c': "drop_bit 16 (cl st (unat (tag st) * 8)) < MAX_PRD_COUNT"
    by (simp add: prd_count_def h)
  have p: "unat (drop_bit 2 (tag st * (128 + MAX_PRD_COUNT * 16) + 0x80 + prd_count st * 16))
     = unat (tag st) * 288 + 32 + unat (prd_count st) * 4"
    using t c by (rule prd_index)
  let ?h = "unat (tag st) * 8"
  let ?p = "unat (tag st) * 288 + 32 + unat (prd_count st) * 4"
  from r nb obtain v where
    st': "st' = st\<lparr>cl := (cl st)(?h := cl st ?h + push_bit 16 1),
                  ct := (ct st)(?p := v, ?p + 1 := 0, ?p + 3 := cnt - 1)\<rparr>"
    using p unfolding add_dma_def Let_def bindE_def prd_count_def h
    by (auto split: if_splits sum.splits)
  have 1: "tables_only st st'" unfolding st' by (simp add: tables_only_def)
  have 2: "prd_count st' = prd_count st + 1"
    using prd_incr[OF c'] unfolding st' prd_count_def by (simp add: h)
  have 3: "\<forall>i. i \<noteq> ?h \<longrightarrow> cl st' i = cl st i" unfolding st' by simp
  have 4: "take_bit 16 (cl st' ?h) = take_bit 16 (cl st ?h)"
    using prd_incr[OF c'] unfolding st' by simp
  have 5: "\<forall>k<32. ct st' (unat (tag st) * 288 + k) = ct st (unat (tag st) * 288 + k)"
    unfolding st' by simp
  have 6: "ct st' (?p + 3) = cnt - 1" unfolding st' by simp
  from 1 2 3 4 5 6 show "tables_only st st' \<and> prd_count st' = prd_count st + 1
          \<and> (\<forall>i. i \<noteq> unat (tag st) * 8 \<longrightarrow> cl st' i = cl st i)
          \<and> take_bit 16 (cl st' (unat (tag st) * 8)) = take_bit 16 (cl st (unat (tag st) * 8))
          \<and> (\<forall>k<32. ct st' (unat (tag st) * 288 + k) = ct st (unat (tag st) * 288 + k))
          \<and> ct st' (unat (tag st) * 288 + 32 + unat (prd_count st) * 4 + 3) = cnt - 1"
    by blast
qed


lemma dma_loop_result:
  "tag st < 32 \<Longrightarrow> dma_loop msg ds st = Inr (ok, st') \<Longrightarrow> unat (prd_count st) = n \<Longrightarrow> n \<le> 64 \<Longrightarrow>
     tables_only st st'
     \<and> (\<forall>i. i \<noteq> unat (tag st) * 8 \<longrightarrow> cl st' i = cl st i)
     \<and> take_bit 16 (cl st' (unat (tag st) * 8)) = take_bit 16 (cl st (unat (tag st) * 8))
     \<and> (\<forall>k<32. ct st' (unat (tag st) * 288 + k) = ct st (unat (tag st) * 288 + k))
     \<and> unat (prd_count st') = n + min (length (takeWhile (desc_ok msg) ds)) (64 - n)
     \<and> (ok \<longleftrightarrow> (\<forall>d\<in>set ds. desc_ok msg d) \<and> n + length ds \<le> 64)"
proof (induction ds arbitrary: st n)
  case Nil
  then show ?case by (simp add: tables_only_refl)
next
  case (Cons d ds)
  note t = Cons.prems(1) and n = Cons.prems(3,4)
  show ?case
  proof (cases "byteoffset d > physsize msg \<or> byteoffset d + bytecount d > physsize msg")
    case True
    then have "\<not> desc_ok msg d" by (auto simp: desc_ok_def)
    moreover from True Cons.prems(2) have "st' = st" "\<not> ok" by simp_all
    ultimately show ?thesis using n by (simp add: tables_only_refl)
  next
    case False
    then have bnd: "byteoffset d \<le> physsize msg \<and> byteoffset d + bytecount d \<le> physsize msg"
      by (simp add: not_less)
    from False Cons.prems(2) obtain b st1 where
      a: "add_dma (physoffset msg + byteoffset d) (bytecount d) st = Inr (b, st1)"
      and l: "(if b then Inr (False, st1) else dma_loop msg ds st1) = Inr (ok, st')"
      by (auto simp: bindE_def split: sum.splits)
    note c = add_dma_cases[OF t a]
    have m: "MAX_PRD_COUNT \<le> prd_count st \<longleftrightarrow> 64 \<le> n"
      using n by (simp add: word_le_nat_alt MAX_PRD_COUNT_def)
    show ?thesis
    proof (cases b)
      case True
      with c(2) l have e: "st' = st" "\<not> ok" by simp_all
      from True c(1) m have "\<not> desc_ok msg d \<or> n = 64"
        using n by (auto simp: desc_ok_def)
      then show ?thesis using e n by (auto simp add: tables_only_refl)
    next
      case False
      with c(1) m bnd have ok_d: "desc_ok msg d" and lt: "n < 64"
        by (auto simp: desc_ok_def not_le)
      from False l have l': "dma_loop msg ds st1 = Inr (ok, st')" by simp
      from False c(3) have f: "tables_only st st1" "prd_count st1 = prd_count st + 1"
        "\<forall>i. i \<noteq> unat (tag st) * 8 \<longrightarrow> cl st1 i = cl st i"
        "take_bit 16 (cl st1 (unat (tag st) * 8)) = take_bit 16 (cl st (unat (tag st) * 8))"
        "\<forall>k<32. ct st1 (unat (tag st) * 288 + k) = ct st (unat (tag st) * 288 + k)"
        by simp_all
      have tg: "tag st1 = tag st" using tables_only_fields(1)[OF f(1)] .
      have n1: "unat (prd_count st1) = Suc n"
        using n lt unfolding f(2) by (simp add: unat_word_ariths)
      have t1: "tag st1 < 32" using t tg by simp
      from lt have n1': "Suc n \<le> 64" by simp
      note ih = Cons.IH[OF t1 l' n1 n1', unfolded tg]
      have "tables_only st st'" using f(1) ih by (blast intro: tables_only_trans)
      moreover have "\<forall>i. i \<noteq> unat (tag st) * 8 \<longrightarrow> cl st' i = cl st i" using f(3) ih by simp
      moreover have "take_bit 16 (cl st' (unat (tag st) * 8)) = take_bit 16 (cl st (unat (tag st) * 8))"
        using f(4) ih by simp
      moreover have "\<forall>k<32. ct st' (unat (tag st) * 288 + k) = ct st (unat (tag st) * 288 + k)"
        using f(5) ih by simp
      moreover have "unat (prd_count st') = n + min (length (takeWhile (desc_ok msg) (d # ds))) (64 - n)"
        using ih ok_d lt by auto
      moreover have "ok \<longleftrightarrow> (\<forall>x\<in>set (d # ds). desc_ok msg x) \<and> n + length (d # ds) \<le> 64"
        using ih ok_d by auto
      ultimately show ?thesis by blast
    qed
  qed
qed

section \<open>Requests of unaligned length\<close>

lemma unat_sum_length: "unat (sum_length ds) = (\<Sum>d\<leftarrow>ds. unat (bytecount d)) mod 2 ^ 32"
  unfolding sum_length_def
proof (induction ds)
  case Nil
  show ?case by simp
next
  case (Cons d ds)
  have "unat (bytecount d + sum_list (map bytecount ds))
      = (unat (bytecount d) + unat (sum_list (map bytecount ds))) mod 2 ^ 32"
    by (simp add: unat_word_ariths)
  also have "\<dots> = (unat (bytecount d) + (\<Sum>d\<leftarrow>ds. unat (bytecount d))) mod 2 ^ 32"
    unfolding Cons.IH by (simp add: mod_add_right_eq)
  finally show ?case by simp
qed

lemma and_1ff: "(w::u32) AND 0x1ff \<noteq> 0 \<longleftrightarrow> \<not> 512 dvd unat w"
proof -
  have m: "(0x1ff::u32) = mask 9" by (simp add: mask_eq_exp_minus_1)
  have "unat (w AND 0x1ff) = unat w mod 512"
    unfolding m by (simp add: unsigned_take_bit_eq take_bit_eq_mod unat_mod flip: take_bit_eq_mask)
  moreover have "w AND 0x1ff \<noteq> 0 \<longleftrightarrow> unat (w AND 0x1ff) \<noteq> 0" by (simp only: unat_eq_0)
  ultimately show ?thesis by (simp add: dvd_eq_mod_eq_0)
qed

lemma sum_length_aligned:
  "sum_length ds AND 0x1ff \<noteq> 0 \<longleftrightarrow> \<not> 512 dvd (\<Sum>d\<leftarrow>ds. unat (bytecount d))"
proof -
  have "(512::nat) dvd 2 ^ 32" by simp
  then have "512 dvd (\<Sum>d\<leftarrow>ds. unat (bytecount d)) mod 2 ^ 32 \<longleftrightarrow> 512 dvd (\<Sum>d\<leftarrow>ds. unat (bytecount d))"
    by (rule dvd_mod_iff)
  then show ?thesis by (simp only: and_1ff unat_sum_length)
qed

text \<open>
  C6. A READ or WRITE request whose descriptor lengths do not sum to a multiple of 512 makes
  \<^verbatim>\<open>receive\<close> return false and leaves the port exactly as it was: no register is written
  (the log \<open>regs_out\<close> is part of the state), and \<open>inprogress\<close>, \<open>tag\<close>, \<open>usertags\<close> and
  the command structures are unchanged.
\<close>

theorem unaligned_length_rejected:
  assumes "mtype msg = DISK_READ \<or> mtype msg = DISK_WRITE"
    and "\<not> 512 dvd (\<Sum>d\<leftarrow>dma msg. unat (bytecount d))"
  shows "receive msg st = Inr (False, st)"
proof -
  from assms(2) have "sum_length (dma msg) AND 0x1ff \<noteq> 0" by (simp add: sum_length_aligned)
  then have "receive_rw msg st = Inr (False, st)" by (simp add: receive_rw_def)
  with assms(1) show ?thesis by (auto simp: receive_def)
qed

text \<open>The theorem at a read of 513 bytes, on a port fresh from the constructor.\<close>

theorem unaligned_length_rejected_witness:
  "mtype read_513 = DISK_READ \<and> \<not> 512 dvd (\<Sum>d\<leftarrow>dma read_513. unat (bytecount d))
   \<and> receive read_513 (fresh_port 0 32) = Inr (False, fresh_port 0 32)"
  using unaligned_length_rejected[of read_513 "fresh_port 0 32"]
  by (simp add: read_513_def)

section \<open>What a request leaves in the slot\<close>

lemma le32_byte2: "ucast (drop_bit 16 (le32 b0 b1 b2 b3)) = b2"
  unfolding le32_def
  by (rule bit_eqI) (auto simp add: bit_simps dest: bit_imp_le_length)

lemma start_command_result:
  assumes "start_command u st = Inr (t, st')"
  shows "t = tag st" and "max_slots st \<noteq> 0"
    and "st' = st\<lparr>inprogress := inprogress st OR push_bit (unat (tag st)) 1,
                  usertags := (usertags st)(unat (tag st) := u),
                  regs_out := regs_out st @ [(CI, push_bit (unat (tag st)) 1)],
                  tag := (tag st + 1) mod max_slots st\<rparr>"
  using assms by (auto simp: start_command_def Let_def write_reg_def split: if_splits)

lemma receive_rw_steps:
  assumes "receive_rw msg st = Inr (r, st')" and "512 dvd (\<Sum>d\<leftarrow>dma msg. unat (bytecount d))"
  shows "\<exists>st1 ok st2.
     set_command (if mtype msg = DISK_WRITE then (if lba48 (params st) then 0x35 else 0xca)
                  else (if lba48 (params st) then 0x25 else 0xc8))
       (sector msg) (mtype msg \<noteq> DISK_WRITE) (drop_bit 9 (sum_length (dma msg))) False 0 0 st = Inr st1
     \<and> dma_loop msg (dma msg) st1 = Inr (ok, st2)
     \<and> r = ok
     \<and> (if ok then start_command (usertag msg) st2 = Inr (tag st2, st') else st' = st2)"
proof -
  from assms(2) have al: "\<not> sum_length (dma msg) AND 0x1ff \<noteq> 0"
    by (simp add: sum_length_aligned)
  show ?thesis
    using assms(1) al unfolding receive_rw_def Let_def bindE_def
    by (auto split: sum.splits if_splits dest: start_command_result(1))
qed


lemma receive_rw_tables:
  assumes t: "tag st < 32" and r: "receive_rw msg st = Inr (r, st')"
    and al: "512 dvd (\<Sum>d\<leftarrow>dma msg. unat (bytecount d))"
  shows "fis_command st' (tag st) =
           (if mtype msg = DISK_WRITE then (if lba48 (params st) then 0x35 else 0xca)
            else (if lba48 (params st) then 0x25 else 0xc8))"
    and "take_bit 16 (cl st' (unat (tag st) * 8)) = (if mtype msg = DISK_WRITE then 0x45 else 5)"
    and "cl st' (unat (tag st) * 8 + 1) = 0"
    and "unat (drop_bit 16 (cl st' (unat (tag st) * 8)))
           = min (length (takeWhile (desc_ok msg) (dma msg))) 64"
    and "r \<longleftrightarrow> (\<forall>d\<in>set (dma msg). desc_ok msg d) \<and> length (dma msg) \<le> 64"
    and "\<not> r \<Longrightarrow> tables_only st st'"
proof -
  let ?c = "if mtype msg = DISK_WRITE then (if lba48 (params st) then 0x35 else 0xca)
            else (if lba48 (params st) then 0x25 else 0xc8) :: u8"
  let ?h = "unat (tag st) * 8"
  let ?b = "unat (tag st) * 288"
  from receive_rw_steps[OF r al] obtain st1 ok st2 where
    sc: "set_command ?c (sector msg) (mtype msg \<noteq> DISK_WRITE) (drop_bit 9 (sum_length (dma msg)))
           False 0 0 st = Inr st1"
    and dl: "dma_loop msg (dma msg) st1 = Inr (ok, st2)"
    and rok: "r = ok"
    and fin: "if ok then start_command (usertag msg) st2 = Inr (tag st2, st') else st' = st2"
    by blast
  note s1 = set_command_result[OF t sc]
  have tg1: "tag st1 = tag st" using tables_only_fields(1)[OF s1(1)] .
  have t1: "tag st1 < 32" using t tg1 by simp
  have p1: "unat (prd_count st1) = 0" using s1(5) by simp
  note d = dma_loop_result[OF t1 dl p1, unfolded tg1, simplified]
  have tg2: "tag st2 = tag st" using tables_only_fields(1)[of st1 st2] d tg1 by simp
  have tabs: "cl st' = cl st2 \<and> ct st' = ct st2"
  proof (cases ok)
    case True
    with fin have "start_command (usertag msg) st2 = Inr (tag st2, st')" by simp
    from start_command_result(3)[OF this] show ?thesis by simp
  next
    case False
    with fin show ?thesis by simp
  qed
  have "ct st' ?b = ct st1 ?b" using d tabs by (metis add.right_neutral zero_less_numeral)
  then show "fis_command st' (tag st) = ?c"
    using s1(4) by (simp add: fis_command_def le32_byte2)
  have "take_bit 16 (cl st' ?h) = take_bit 16 (cl st1 ?h)" using d tabs by simp
  then show "take_bit 16 (cl st' ?h) = (if mtype msg = DISK_WRITE then 0x45 else 5)"
    unfolding s1(2) by simp
  have "cl st' (?h + 1) = cl st1 (?h + 1)" using d tabs by simp
  then show "cl st' (?h + 1) = 0" using s1(3) by simp
  have "prd_count st2 = drop_bit 16 (cl st' ?h)"
    using tabs by (simp add: prd_count_def tg2 cl_index0[OF t])
  then show "unat (drop_bit 16 (cl st' ?h)) = min (length (takeWhile (desc_ok msg) (dma msg))) 64"
    using d by simp
  show "r \<longleftrightarrow> (\<forall>d\<in>set (dma msg). desc_ok msg d) \<and> length (dma msg) \<le> 64"
    using d rok by simp
  assume "\<not> r"
  with rok fin have "st' = st2" by simp
  then show "tables_only st st'" using s1(1) d by (blast intro: tables_only_trans)
qed


lemma flush_tables:
  assumes t: "tag st < 32" and r: "receive msg st = Inr (r, st')"
    and d: "disknr msg = port_disknr st" and f: "mtype msg = DISK_FLUSH_CACHE"
  shows "fis_command st' (tag st) = (if lba48 (params st) then 0xea else 0xe7)"
    and "drop_bit 16 (cl st' (unat (tag st * CL_DWORDS))) = 0"
    and "r" and "start_command 0 (st\<lparr>cl := cl st', ct := ct st'\<rparr>) = Inr (tag st, st')"
proof -
  from r d f obtain st1 where
    sc: "set_command (if lba48 (params st) then 0xea else 0xe7) 0 True 0 False 0 0 st = Inr st1"
    and st: "start_command 0 st1 = Inr (tag st1, st')" and "r"
    unfolding receive_def bindE_def
    by (auto split: sum.splits dest: start_command_result(1))
  show "r" by fact
  note s1 = set_command_result[OF t sc]
  have tg1: "tag st1 = tag st" using tables_only_fields(1)[OF s1(1)] .
  have tabs: "cl st' = cl st1 \<and> ct st' = ct st1"
    using start_command_result(3)[OF st] by simp
  show "fis_command st' (tag st) = (if lba48 (params st) then 0xea else 0xe7)"
    using s1(4) tabs by (simp add: fis_command_def le32_byte2)
  show "drop_bit 16 (cl st' (unat (tag st * CL_DWORDS))) = 0"
    using s1(5) tabs by (simp add: prd_count_def tg1)
  have "st1 = st\<lparr>cl := cl st', ct := ct st'\<rparr>"
    using s1(1) tabs by (simp add: tables_only_def)
  with st tg1 show "start_command 0 (st\<lparr>cl := cl st', ct := ct st'\<rparr>) = Inr (tag st, st')"
    by simp
qed

text \<open>Unfolding the driver on concrete inputs.\<close>

lemmas eval_defs = fresh_port_def HostAhciPort_def zero_port_def receive_def receive_rw_def
  set_command_def add_dma_def start_command_def addr2phys_def sum_length_def bindE_def
  write_reg_def cfis_def le32_def CL_DWORDS_def MAX_PRD_COUNT_def Let_def
  word_le_nat_alt word_less_nat_alt

text \<open>
  C4. Whenever \<^verbatim>\<open>receive\<close> returns on a request for this disk, the command byte of the
  command FIS of the slot it used (the slot \<open>tag st\<close> of the state before) is 0x25 / 0xc8
  for a READ and 0x35 / 0xca for a WRITE of sector-aligned length (an unaligned one writes
  no FIS at all), and 0xea / 0xe7 for a FLUSH_CACHE, by LBA48; after a FLUSH_CACHE the PRD
  count of the slot is 0.
\<close>

theorem command_byte:
  assumes "receive msg st = Inr (r, st')" and "disknr msg = port_disknr st" and "tag st < 32"
  shows "(mtype msg = DISK_READ \<and> 512 dvd (\<Sum>d\<leftarrow>dma msg. unat (bytecount d)) \<longrightarrow>
            fis_command st' (tag st) = (if lba48 (params st) then 0x25 else 0xc8))
       \<and> (mtype msg = DISK_WRITE \<and> 512 dvd (\<Sum>d\<leftarrow>dma msg. unat (bytecount d)) \<longrightarrow>
            fis_command st' (tag st) = (if lba48 (params st) then 0x35 else 0xca))
       \<and> (mtype msg = DISK_FLUSH_CACHE \<longrightarrow>
            fis_command st' (tag st) = (if lba48 (params st) then 0xea else 0xe7)
            \<and> drop_bit 16 (cl st' (unat (tag st * CL_DWORDS))) = 0)"
proof (intro conjI impI)
  assume a: "mtype msg = DISK_READ \<and> 512 dvd (\<Sum>d\<leftarrow>dma msg. unat (bytecount d))"
  with assms(1,2) have "receive_rw msg st = Inr (r, st')" by (simp add: receive_def)
  from receive_rw_tables(1)[OF assms(3) this] a
  show "fis_command st' (tag st) = (if lba48 (params st) then 0x25 else 0xc8)" by simp
next
  assume a: "mtype msg = DISK_WRITE \<and> 512 dvd (\<Sum>d\<leftarrow>dma msg. unat (bytecount d))"
  with assms(1,2) have "receive_rw msg st = Inr (r, st')" by (simp add: receive_def)
  from receive_rw_tables(1)[OF assms(3) this] a
  show "fis_command st' (tag st) = (if lba48 (params st) then 0x35 else 0xca)" by simp
next
  assume a: "mtype msg = DISK_FLUSH_CACHE"
  from flush_tables(1)[OF assms(3,1,2) a]
  show "fis_command st' (tag st) = (if lba48 (params st) then 0xea else 0xe7)" .
  from flush_tables(2)[OF assms(3,1,2) a]
  show "drop_bit 16 (cl st' (unat (tag st * CL_DWORDS))) = 0" .
qed

text \<open>
  The theorem on fresh ports: a read on an LBA48 drive, a write and a flush on a drive
  without LBA48.
\<close>

theorem command_byte_witness:
  "(\<exists>r st'. receive read_4096 ((fresh_port 0 32)\<lparr>params := \<lparr>lba48 = True\<rparr>\<rparr>) = Inr (r, st')
       \<and> fis_command st' 0 = 0x25)
   \<and> (\<exists>r st'. receive write_4096 (fresh_port 0 32) = Inr (r, st') \<and> fis_command st' 0 = 0xca)
   \<and> (\<exists>r st'. receive flush_abcd (fresh_port 0 32) = Inr (r, st') \<and> fis_command st' 0 = 0xe7
         \<and> drop_bit 16 (cl st' 0) = 0)"
proof -
  let ?p = "(fresh_port 0 32)\<lparr>params := \<lparr>lba48 = True\<rparr>\<rparr>"
  have "\<exists>st'. receive read_4096 ?p = Inr (True, st')"
    by (simp add: eval_defs read_4096_def)
  then obtain r1 s1 where 1: "receive read_4096 ?p = Inr (r1, s1)" by blast
  have "\<exists>st'. receive write_4096 (fresh_port 0 32) = Inr (True, st')"
    by (simp add: eval_defs write_4096_def)
  then obtain r2 s2 where 2: "receive write_4096 (fresh_port 0 32) = Inr (r2, s2)" by blast
  have "\<exists>st'. receive flush_abcd (fresh_port 0 32) = Inr (True, st')"
    by (simp add: eval_defs flush_abcd_def)
  then obtain r3 s3 where 3: "receive flush_abcd (fresh_port 0 32) = Inr (r3, s3)" by blast
  have a: "disknr read_4096 = port_disknr ?p" "tag ?p < 32" "mtype read_4096 = DISK_READ"
    "512 dvd (\<Sum>d\<leftarrow>dma read_4096. unat (bytecount d))" "lba48 (params ?p)" "tag ?p = 0"
    by (simp_all add: read_4096_def fresh_port_def HostAhciPort_def zero_port_def)
  have b: "disknr write_4096 = port_disknr (fresh_port 0 32)" "tag (fresh_port 0 32) < 32"
    "mtype write_4096 = DISK_WRITE" "512 dvd (\<Sum>d\<leftarrow>dma write_4096. unat (bytecount d))"
    "\<not> lba48 (params (fresh_port 0 32))" "tag (fresh_port 0 32) = 0"
    by (simp_all add: write_4096_def fresh_port_def HostAhciPort_def zero_port_def)
  have c: "disknr flush_abcd = port_disknr (fresh_port 0 32)"
    "mtype flush_abcd = DISK_FLUSH_CACHE"
    by (simp_all add: flush_abcd_def fresh_port_def HostAhciPort_def zero_port_def)
  from command_byte[OF 1 a(1,2)] a have "fis_command s1 0 = 0x25" by simp
  moreover from command_byte[OF 2 b(1,2)] b have "fis_command s2 0 = 0xca" by simp
  moreover from command_byte[OF 3 c(1) b(2)] b c
  have "fis_command s3 0 = 0xe7 \<and> drop_bit 16 (cl s3 0) = 0" by simp
  ultimately show ?thesis using 1 2 3 by blast
qed

section \<open>Requests that fail after the length check\<close>

text \<open>
  C9. When \<^verbatim>\<open>receive\<close> returns false on a READ or WRITE of sector-aligned length, the
  slot's command structures have been rewritten: the command FIS holds the new command
  byte, the low half of dword 0 of the header the new flags, dword 1 is 0, and the PRD
  count is the number of descriptors accepted before the failing one (the leading
  descriptors that pass the bounds and byte-count tests, at most 64). Some descriptor
  fails a test or there are more than 64. \<open>inprogress\<close>, \<open>tag\<close>, \<open>usertags\<close> and the log of
  register writes (so CI) are as before.
\<close>

theorem failed_request_state:
  assumes r: "receive msg st = Inr (False, st')" and d: "disknr msg = port_disknr st"
    and m: "mtype msg = DISK_READ \<or> mtype msg = DISK_WRITE"
    and al: "512 dvd (\<Sum>d\<leftarrow>dma msg. unat (bytecount d))" and t: "tag st < 32"
  shows "inprogress st' = inprogress st \<and> tag st' = tag st \<and> usertags st' = usertags st
       \<and> regs_out st' = regs_out st
       \<and> fis_command st' (tag st) =
           (if mtype msg = DISK_WRITE then (if lba48 (params st) then 0x35 else 0xca)
            else (if lba48 (params st) then 0x25 else 0xc8))
       \<and> take_bit 16 (cl st' (unat (tag st * CL_DWORDS))) = (if mtype msg = DISK_WRITE then 0x45 else 5)
       \<and> cl st' (unat (tag st * CL_DWORDS + 1)) = 0
       \<and> unat (prd_count st') = min (length (takeWhile (desc_ok msg) (dma msg))) 64
       \<and> ((\<exists>d\<in>set (dma msg). \<not> desc_ok msg d) \<or> 64 < length (dma msg))"
proof -
  from r d m have rw: "receive_rw msg st = Inr (False, st')" by (auto simp: receive_def)
  note x = receive_rw_tables[OF t rw al]
  from x(6) have to: "tables_only st st'" by simp
  note f = tables_only_fields[OF to]
  have "unat (prd_count st') = min (length (takeWhile (desc_ok msg) (dma msg))) 64"
    using x(4) by (simp add: prd_count_def f(1) cl_index0[OF t])
  moreover have "(\<exists>d\<in>set (dma msg). \<not> desc_ok msg d) \<or> 64 < length (dma msg)"
    using x(5) by auto
  ultimately show ?thesis
    using f(1,2,3,4) x(1,2,3) by (simp add: cl_index0[OF t] cl_index1[OF t])
qed

text \<open>
  The theorem on a fresh port, whose header dword 0 was 0: one descriptor is accepted,
  the second fails the bounds test.
\<close>

theorem failed_request_state_witness:
  "\<exists>st'. receive read_out_of_bounds (fresh_port 0 32) = Inr (False, st')
     \<and> disknr read_out_of_bounds = port_disknr (fresh_port 0 32)
     \<and> mtype read_out_of_bounds = DISK_READ
     \<and> 512 dvd (\<Sum>d\<leftarrow>dma read_out_of_bounds. unat (bytecount d))
     \<and> tag (fresh_port 0 32) < 32
     \<and> inprogress st' = 0 \<and> tag st' = 0 \<and> regs_out st' = []
     \<and> fis_command st' 0 = 0xc8 \<and> take_bit 16 (cl st' 0) = 5 \<and> cl st' 1 = 0
     \<and> unat (prd_count st') = 1
     \<and> cl (fresh_port 0 32) 0 = 0"
proof -
  have "\<exists>st'. receive read_out_of_bounds (fresh_port 0 32) = Inr (False, st')"
    by (simp add: eval_defs read_out_of_bounds_def)
  then obtain s where 1: "receive read_out_of_bounds (fresh_port 0 32) = Inr (False, s)" by blast
  have a: "disknr read_out_of_bounds = port_disknr (fresh_port 0 32)"
    "mtype read_out_of_bounds = DISK_READ \<or> mtype read_out_of_bounds = DISK_WRITE"
    "512 dvd (\<Sum>d\<leftarrow>dma read_out_of_bounds. unat (bytecount d))"
    "tag (fresh_port 0 32) < 32"
    by (simp_all add: read_out_of_bounds_def fresh_port_def HostAhciPort_def zero_port_def)
  have b: "mtype read_out_of_bounds = DISK_READ" "tag (fresh_port 0 32) = 0"
    "inprogress (fresh_port 0 32) = 0" "regs_out (fresh_port 0 32) = []"
    "\<not> lba48 (params (fresh_port 0 32))" "cl (fresh_port 0 32) 0 = 0"
    "length (takeWhile (desc_ok read_out_of_bounds) (dma read_out_of_bounds)) = 1"
    by (simp_all add: read_out_of_bounds_def fresh_port_def HostAhciPort_def zero_port_def
        desc_ok_def word_le_nat_alt)
  from failed_request_state[OF 1 a] show ?thesis
    using 1 a b by (simp add: CL_DWORDS_def)
qed

section \<open>Descriptors of length zero\<close>

lemma addr2phys_tables: "tables_only st st' \<Longrightarrow> addr2phys st' p = addr2phys st p"
  using tables_only_fields(8,11)[of st st'] by (simp add: addr2phys_def)

lemma set_command_success:
  "addr2phys st (ct_ptr st + 4 * (tag st * (128 + MAX_PRD_COUNT * 16) div 4)) = Inr v0 \<Longrightarrow>
   \<exists>st1. set_command c s r n a p f st = Inr st1"
  by (simp add: set_command_def Let_def bindE_def)

lemma add_dma_success:
  assumes "even (unat cnt)" and "unat cnt < 2 ^ 22" and "prd_count st < MAX_PRD_COUNT"
    and "addr2phys st ptr = Inr v"
  shows "\<exists>st1. add_dma ptr cnt st = Inr (False, st1)"
proof -
  from assms(1,2) have "\<not> (cnt AND 1 \<noteq> 0)" "\<not> (drop_bit 22 cnt \<noteq> 0)"
    by (simp_all only: odd_count big_count not_le not_not)
  moreover from assms(3) have "\<not> MAX_PRD_COUNT \<le> drop_bit 16 (cl st (unat (tag st * CL_DWORDS)))"
    by (simp add: prd_count_def not_le)
  ultimately show ?thesis using assms(4)
    by (simp add: add_dma_def Let_def bindE_def)
qed

text \<open>
  C10. A descriptor of byte count zero that starts inside the caller's region is accepted.
  In the descriptor loop, with room in the PRD table, \<^verbatim>\<open>add_dma\<close> returns false for it, the
  loop goes on with the next descriptor, the PRD count is one more and the fourth dword of
  the new entry is \<open>0 - 1 = 0xffffffff\<close>. A READ or WRITE whose only descriptor it is makes
  \<^verbatim>\<open>receive\<close> return true, with PRD count 1 and 0xffffffff in the fourth dword of the
  slot's first PRD entry.
\<close>

theorem zero_length_descriptor:
  assumes z: "bytecount d = 0" and o: "byteoffset d \<le> physsize msg" and t: "tag st < 32"
    and v: "addr2phys st (physoffset msg + byteoffset d) = Inr v"
  shows "(prd_count st < MAX_PRD_COUNT \<longrightarrow>
           (\<exists>st1. add_dma (physoffset msg + byteoffset d) (bytecount d) st = Inr (False, st1)
              \<and> dma_loop msg (d # ds) st = dma_loop msg ds st1
              \<and> prd_count st1 = prd_count st + 1
              \<and> ct st1 (unat (tag st) * 288 + 32 + unat (prd_count st) * 4 + 3) = 0xffffffff))
       \<and> ((mtype msg = DISK_READ \<or> mtype msg = DISK_WRITE) \<and> disknr msg = port_disknr st
            \<and> dma msg = [d] \<and> max_slots st \<noteq> 0
            \<and> addr2phys st (ct_ptr st + 4 * (tag st * (128 + MAX_PRD_COUNT * 16) div 4)) = Inr v0 \<longrightarrow>
           (\<exists>st'. receive msg st = Inr (True, st')
              \<and> drop_bit 16 (cl st' (unat (tag st * CL_DWORDS))) = 1
              \<and> ct st' (unat (tag st) * 288 + 32 + 3) = 0xffffffff))"
proof -
  have step: "\<exists>st1. add_dma (physoffset msg + byteoffset d) (bytecount d) s = Inr (False, st1)
              \<and> dma_loop msg (d # ds') s = dma_loop msg ds' st1
              \<and> tables_only s st1
              \<and> prd_count st1 = prd_count s + 1
              \<and> ct st1 (unat (tag s) * 288 + 32 + unat (prd_count s) * 4 + 3) = 0xffffffff"
    if p: "prd_count s < MAX_PRD_COUNT" and ts: "tag s < 32"
      and vs: "addr2phys s (physoffset msg + byteoffset d) = Inr v" for s ds'
  proof -
    from add_dma_success[of "bytecount d" s, OF _ _ p vs] z obtain st1 where
      a: "add_dma (physoffset msg + byteoffset d) (bytecount d) s = Inr (False, st1)" by auto
    note c = add_dma_cases(3)[OF ts a]
    have "byteoffset d + bytecount d \<le> physsize msg" using z o by simp
    with o a have "dma_loop msg (d # ds') s = dma_loop msg ds' st1"
      by (simp add: bindE_def not_less[symmetric])
    with a c z show ?thesis by auto
  qed
  show ?thesis
  proof (intro conjI impI)
    assume "prd_count st < MAX_PRD_COUNT"
    from step[OF this t v, of ds]
    show "\<exists>st1. add_dma (physoffset msg + byteoffset d) (bytecount d) st = Inr (False, st1)
              \<and> dma_loop msg (d # ds) st = dma_loop msg ds st1
              \<and> prd_count st1 = prd_count st + 1
              \<and> ct st1 (unat (tag st) * 288 + 32 + unat (prd_count st) * 4 + 3) = 0xffffffff"
      by blast
  next
    assume a: "(mtype msg = DISK_READ \<or> mtype msg = DISK_WRITE) \<and> disknr msg = port_disknr st
            \<and> dma msg = [d] \<and> max_slots st \<noteq> 0
            \<and> addr2phys st (ct_ptr st + 4 * (tag st * (128 + MAX_PRD_COUNT * 16) div 4)) = Inr v0"
    let ?c = "if mtype msg = DISK_WRITE then (if lba48 (params st) then 0x35 else 0xca)
            else (if lba48 (params st) then 0x25 else 0xc8) :: u8"
    have len: "sum_length (dma msg) = 0" using a z by (simp add: sum_length_def)
    from a set_command_success obtain st1 where
      sc: "set_command ?c (sector msg) (mtype msg \<noteq> DISK_WRITE) (drop_bit 9 (sum_length (dma msg)))
           False 0 0 st = Inr st1" by blast
    note s1 = set_command_result[OF t sc]
    have tg1: "tag st1 = tag st" using tables_only_fields(1)[OF s1(1)] .
    have p1: "prd_count st1 < MAX_PRD_COUNT" using s1(5) by (simp add: MAX_PRD_COUNT_def)
    have v1: "addr2phys st1 (physoffset msg + byteoffset d) = Inr v"
      using addr2phys_tables[OF s1(1)] v by simp
    from step[OF p1 _ v1, of "[]"] t tg1 obtain st2 where
      dl: "dma_loop msg [d] st1 = Inr (True, st2)" and to2: "tables_only st1 st2"
      and p2: "prd_count st2 = 1"
      and e2: "ct st2 (unat (tag st) * 288 + 32 + 3) = 0xffffffff"
      using s1(5) by auto
    have tg2: "tag st2 = tag st" using tables_only_fields(1)[OF to2] tg1 by simp
    have ms: "max_slots st2 \<noteq> 0"
      using tables_only_fields(9)[OF to2] tables_only_fields(9)[OF s1(1)] a by simp
    let ?st' = "st2\<lparr>inprogress := inprogress st2 OR push_bit (unat (tag st2)) 1,
                  usertags := (usertags st2)(unat (tag st2) := usertag msg),
                  regs_out := regs_out st2 @ [(CI, push_bit (unat (tag st2)) 1)],
                  tag := (tag st2 + 1) mod max_slots st2\<rparr>"
    have st: "start_command (usertag msg) st2 = Inr (tag st2, ?st')"
      using ms by (simp add: start_command_def Let_def write_reg_def)
    have "receive_rw msg st = Inr (True, ?st')"
      using sc dl st len a by (simp add: receive_rw_def Let_def bindE_def)
    then have "receive msg st = Inr (True, ?st')" using a by (auto simp: receive_def)
    moreover have "drop_bit 16 (cl ?st' (unat (tag st * CL_DWORDS))) = 1"
      using p2 by (simp add: prd_count_def tg2)
    moreover have "ct ?st' (unat (tag st) * 288 + 32 + 3) = 0xffffffff" using e2 by simp
    ultimately show "\<exists>st'. receive msg st = Inr (True, st')
              \<and> drop_bit 16 (cl st' (unat (tag st * CL_DWORDS))) = 1
              \<and> ct st' (unat (tag st) * 288 + 32 + 3) = 0xffffffff" by blast
  qed
qed

text \<open>The theorem on a fresh port, for a read with the one descriptor (offset 16, 0 bytes).\<close>

theorem zero_length_descriptor_witness:
  "tag (fresh_port 0 32) < 32
   \<and> addr2phys (fresh_port 0 32) 0x5010 = Inr 0x10005010
   \<and> prd_count (fresh_port 0 32) < MAX_PRD_COUNT
   \<and> (\<exists>st1. add_dma 0x5010 0 (fresh_port 0 32) = Inr (False, st1)
         \<and> prd_count st1 = 1 \<and> ct st1 35 = 0xffffffff)
   \<and> mtype read_empty = DISK_READ \<and> disknr read_empty = port_disknr (fresh_port 0 32)
   \<and> dma read_empty = [\<lparr>byteoffset = 16, bytecount = 0\<rparr>] \<and> max_slots (fresh_port 0 32) \<noteq> 0
   \<and> addr2phys (fresh_port 0 32) 0x200000 = Inr 0x10200000
   \<and> (\<exists>st'. receive read_empty (fresh_port 0 32) = Inr (True, st')
         \<and> drop_bit 16 (cl st' 0) = 1 \<and> ct st' 35 = 0xffffffff)"
proof -
  let ?d = "\<lparr>byteoffset = 16, bytecount = 0\<rparr> :: dma_descriptor"
  let ?P = "fresh_port 0 32"
  have e: "physoffset read_empty + byteoffset ?d = 0x5010" "bytecount ?d = 0"
    "prd_count ?P = 0" "tag ?P = 0"
    "ct_ptr ?P + 4 * (tag ?P * (128 + MAX_PRD_COUNT * 16) div 4) = 0x200000"
    by (simp_all add: read_empty_def fresh_port_def HostAhciPort_def zero_port_def
        prd_count_def MAX_PRD_COUNT_def)
  have h: "bytecount ?d = 0" "byteoffset ?d \<le> physsize read_empty" "tag ?P < 32"
    "addr2phys ?P (physoffset read_empty + byteoffset ?d) = Inr 0x10005010"
    by (simp_all add: read_empty_def fresh_port_def HostAhciPort_def zero_port_def
        addr2phys_def word_le_nat_alt)
  have g: "prd_count ?P < MAX_PRD_COUNT" "mtype read_empty = DISK_READ"
    "disknr read_empty = port_disknr ?P" "dma read_empty = [?d]" "max_slots ?P \<noteq> 0"
    "addr2phys ?P 0x200000 = Inr 0x10200000"
    by (simp_all add: read_empty_def fresh_port_def HostAhciPort_def zero_port_def
        addr2phys_def prd_count_def MAX_PRD_COUNT_def)
  have g': "addr2phys ?P (ct_ptr ?P + 4 * (tag ?P * (128 + MAX_PRD_COUNT * 16) div 4))
      = Inr 0x10200000"
    using g(6) e(5) by simp
  note th = zero_length_descriptor[OF h, of "[]" "0x10200000", unfolded e(1,2)]
  from th g(1) obtain st1 where
    1: "add_dma 0x5010 0 ?P = Inr (False, st1)" "prd_count st1 = prd_count ?P + 1"
       "ct st1 (unat (tag ?P) * 288 + 32 + unat (prd_count ?P) * 4 + 3) = 0xffffffff"
    by blast
  from th g g' obtain st' where
    2: "receive read_empty ?P = Inr (True, st')"
       "drop_bit 16 (cl st' (unat (tag ?P * CL_DWORDS))) = 1"
       "ct st' (unat (tag ?P) * 288 + 32 + 3) = 0xffffffff"
    by blast
  from 1 have a1: "add_dma 0x5010 0 ?P = Inr (False, st1) \<and> prd_count st1 = 1
     \<and> ct st1 35 = 0xffffffff" unfolding e(3,4) by simp
  from 2 have a2: "receive read_empty ?P = Inr (True, st') \<and> drop_bit 16 (cl st' 0) = 1
     \<and> ct st' 35 = 0xffffffff" unfolding e(3,4) by simp
  from a1 a2 h(3) h(4)[unfolded e] g show ?thesis by blast
qed

section \<open>The register wait helper\<close>

lemma polls_0: "polls msk val tmo rs cs 0"
  by (simp add: polls_def)

lemma polls_Suc:
  "polls msk val tmo (r # rs) cs (Suc n) \<longleftrightarrow>
     r AND msk \<noteq> val \<and> (\<exists>c cs'. cs = c # cs' \<and> c < tmo \<and> polls msk val tmo rs cs' n)"
proof
  assume a: "polls msk val tmo (r # rs) cs (Suc n)"
  then have 0: "r AND msk \<noteq> val \<and> 0 < length cs \<and> cs ! 0 < tmo"
    unfolding polls_def by fastforce
  then obtain c cs' where cs: "cs = c # cs'" by (cases cs) auto
  have "polls msk val tmo rs cs' n"
    unfolding polls_def
  proof (intro allI impI)
    fix i assume "i < n"
    then have "Suc i < Suc n" by simp
    with a have "(r # rs) ! Suc i AND msk \<noteq> val \<and> Suc i < length cs \<and> cs ! Suc i < tmo"
      unfolding polls_def by blast
    then show "rs ! i AND msk \<noteq> val \<and> i < length cs' \<and> cs' ! i < tmo" by (simp add: cs)
  qed
  with 0 cs show "r AND msk \<noteq> val \<and> (\<exists>c cs'. cs = c # cs' \<and> c < tmo \<and> polls msk val tmo rs cs' n)"
    by simp
next
  assume "r AND msk \<noteq> val \<and> (\<exists>c cs'. cs = c # cs' \<and> c < tmo \<and> polls msk val tmo rs cs' n)"
  then obtain c cs' where r: "r AND msk \<noteq> val" and cs: "cs = c # cs'" and c: "c < tmo"
    and p: "polls msk val tmo rs cs' n" by blast
  show "polls msk val tmo (r # rs) cs (Suc n)"
    unfolding polls_def
  proof (intro allI impI)
    fix i assume i: "i < Suc n"
    show "(r # rs) ! i AND msk \<noteq> val \<and> i < length cs \<and> cs ! i < tmo"
    proof (cases i)
      case 0
      with r c cs show ?thesis by simp
    next
      case (Suc j)
      with i have "j < n" by simp
      with p have "rs ! j AND msk \<noteq> val \<and> j < length cs' \<and> cs' ! j < tmo"
        unfolding polls_def by blast
      with Suc cs show ?thesis by simp
    qed
  qed
qed

lemma wait_loop_iff:
  "wait_loop msk val tmo rs cs = Some (rs', cs') \<longleftrightarrow>
     (\<exists>n. loop_exit msk val tmo rs cs n cs' \<and> rs' = drop (Suc n) rs)"
proof (induction rs arbitrary: cs)
  case Nil
  show ?case by (simp add: loop_exit_def)
next
  case (Cons r rs)
  show ?case
  proof (cases "r AND msk \<noteq> val")
    case False
    have "(\<exists>n. loop_exit msk val tmo (r # rs) cs n cs' \<and> rs' = drop (Suc n) (r # rs))
        \<longleftrightarrow> rs' = rs \<and> cs' = cs"
    proof
      assume "\<exists>n. loop_exit msk val tmo (r # rs) cs n cs' \<and> rs' = drop (Suc n) (r # rs)"
      then obtain n where n: "loop_exit msk val tmo (r # rs) cs n cs'" "rs' = drop (Suc n) (r # rs)"
        by blast
      have "n = 0"
      proof (cases n)
        case (Suc m)
        with n(1) False show ?thesis by (simp add: loop_exit_def polls_Suc)
      qed simp
      with n False show "rs' = rs \<and> cs' = cs" by (simp add: loop_exit_def)
    next
      assume "rs' = rs \<and> cs' = cs"
      with False have "loop_exit msk val tmo (r # rs) cs 0 cs' \<and> rs' = drop (Suc 0) (r # rs)"
        by (simp add: loop_exit_def polls_0)
      then show "\<exists>n. loop_exit msk val tmo (r # rs) cs n cs' \<and> rs' = drop (Suc n) (r # rs)" ..
    qed
    with False show ?thesis by auto
  next
    case True
    show ?thesis
    proof (cases cs)
      case Nil
      have "\<not> loop_exit msk val tmo (r # rs) [] n cs'" for n
        using True by (cases n) (simp_all add: loop_exit_def polls_Suc)
      with True Nil show ?thesis by simp
    next
      case (Cons c cs1)
      show ?thesis
      proof (cases "c < tmo")
        case False
        have "(\<exists>n. loop_exit msk val tmo (r # rs) cs n cs' \<and> rs' = drop (Suc n) (r # rs))
          \<longleftrightarrow> rs' = rs \<and> cs' = cs1"
        proof
          assume "\<exists>n. loop_exit msk val tmo (r # rs) cs n cs' \<and> rs' = drop (Suc n) (r # rs)"
          then obtain n where n: "loop_exit msk val tmo (r # rs) cs n cs'"
            "rs' = drop (Suc n) (r # rs)" by blast
          have "n = 0"
          proof (cases n)
            case (Suc m)
            with n(1) False Cons show ?thesis by (simp add: loop_exit_def polls_Suc)
          qed simp
          with n True Cons show "rs' = rs \<and> cs' = cs1" by (simp add: loop_exit_def)
        next
          assume "rs' = rs \<and> cs' = cs1"
          with True False Cons
          have "loop_exit msk val tmo (r # rs) cs 0 cs' \<and> rs' = drop (Suc 0) (r # rs)"
            by (simp add: loop_exit_def polls_0)
          then show "\<exists>n. loop_exit msk val tmo (r # rs) cs n cs' \<and> rs' = drop (Suc n) (r # rs)" ..
        qed
        with True False Cons show ?thesis by auto
      next
        case c: True
        have "(\<exists>n. loop_exit msk val tmo (r # rs) cs n cs' \<and> rs' = drop (Suc n) (r # rs))
          \<longleftrightarrow> (\<exists>m. loop_exit msk val tmo rs cs1 m cs' \<and> rs' = drop (Suc m) rs)"
        proof
          assume "\<exists>n. loop_exit msk val tmo (r # rs) cs n cs' \<and> rs' = drop (Suc n) (r # rs)"
          then obtain n where n: "loop_exit msk val tmo (r # rs) cs n cs'"
            "rs' = drop (Suc n) (r # rs)" by blast
          from n(1) True c Cons obtain m where m: "n = Suc m"
            by (cases n) (auto simp add: loop_exit_def)
          with n Cons have "loop_exit msk val tmo rs cs1 m cs' \<and> rs' = drop (Suc m) rs"
            by (auto simp add: loop_exit_def polls_Suc)
          then show "\<exists>m. loop_exit msk val tmo rs cs1 m cs' \<and> rs' = drop (Suc m) rs" ..
        next
          assume "\<exists>m. loop_exit msk val tmo rs cs1 m cs' \<and> rs' = drop (Suc m) rs"
          then obtain m where "loop_exit msk val tmo rs cs1 m cs'" "rs' = drop (Suc m) rs"
            by blast
          with True c Cons
          have "loop_exit msk val tmo (r # rs) cs (Suc m) cs' \<and> rs' = drop (Suc (Suc m)) (r # rs)"
            by (auto simp add: loop_exit_def polls_Suc)
          then show "\<exists>n. loop_exit msk val tmo (r # rs) cs n cs' \<and> rs' = drop (Suc n) (r # rs)" ..
        qed
        with True c Cons Cons.IH[of cs1] show ?thesis by simp
      qed
    qed
  qed
qed


lemma drop_eq_Cons_iff:
  "drop k xs = y # ys \<longleftrightarrow> k < length xs \<and> xs ! k = y \<and> drop (Suc k) xs = ys"
proof
  assume a: "drop k xs = y # ys"
  then have k: "k < length xs" by (cases "k < length xs") auto
  from Cons_nth_drop_Suc[OF k] a show "k < length xs \<and> xs ! k = y \<and> drop (Suc k) xs = ys"
    using k by simp
next
  assume "k < length xs \<and> xs ! k = y \<and> drop (Suc k) xs = ys"
  then show "drop k xs = y # ys" using Cons_nth_drop_Suc[of k xs] by auto
qed

text \<open>
  C8, as the source has it. \<^verbatim>\<open>wait_timeout\<close> returns exactly when the clock gives a start
  reading \<open>c0\<close>, the loop ends after some \<open>n\<close> rounds (at a register reading with
  \<open>(r AND msk) = val\<close>, or at a clock reading not below \<open>c0 + 200\<close>) and the register can
  be read once more. The result is 0 when this last reading passes the test and 1 when it
  fails it, the readings consumed are gone from the state, and nothing else changes.
\<close>

theorem wait_timeout_result:
  "wait_timeout reg msk val st = Inr (res, st') \<longleftrightarrow>
   (\<exists>c0 cs n. clock_in st = c0 # cs
      \<and> loop_exit msk val (c0 + 200) (regs_in st reg) cs n (clock_in st')
      \<and> Suc n < length (regs_in st reg)
      \<and> res = (if regs_in st reg ! Suc n AND msk \<noteq> val then 1 else 0)
      \<and> st' = st\<lparr>regs_in := (regs_in st)(reg := drop (Suc (Suc n)) (regs_in st reg)),
                 clock_in := clock_in st'\<rparr>)"
proof
  let ?RS = "regs_in st reg"
  assume w: "wait_timeout reg msk val st = Inr (res, st')"
  then obtain c0 cs where c: "clock_in st = c0 # cs"
    by (cases "clock_in st") (simp_all add: wait_timeout_def)
  from w c obtain rs cs' where l: "wait_loop msk val (c0 + 200) ?RS cs = Some (rs, cs')"
    by (cases "wait_loop msk val (c0 + 200) ?RS cs") (auto simp add: wait_timeout_def TIMEOUT_def)
  from w c l obtain r rs' where rs: "rs = r # rs'"
    by (cases rs) (simp_all add: wait_timeout_def TIMEOUT_def)
  from w c l rs have res: "res = (if r AND msk \<noteq> val then 1 else 0)"
    and st': "st' = st\<lparr>regs_in := (regs_in st)(reg := rs'), clock_in := cs'\<rparr>"
    by (simp_all add: wait_timeout_def TIMEOUT_def)
  from st' have ck: "clock_in st' = cs'" by simp
  from l obtain n where n: "loop_exit msk val (c0 + 200) ?RS cs n cs'" "rs = drop (Suc n) ?RS"
    unfolding wait_loop_iff by blast
  from n(2) rs have d: "Suc n < length ?RS \<and> ?RS ! Suc n = r \<and> drop (Suc (Suc n)) ?RS = rs'"
    using drop_eq_Cons_iff[of "Suc n" ?RS r rs'] by simp
  show "\<exists>c0 cs n. clock_in st = c0 # cs
      \<and> loop_exit msk val (c0 + 200) ?RS cs n (clock_in st')
      \<and> Suc n < length ?RS
      \<and> res = (if ?RS ! Suc n AND msk \<noteq> val then 1 else 0)
      \<and> st' = st\<lparr>regs_in := (regs_in st)(reg := drop (Suc (Suc n)) ?RS),
                 clock_in := clock_in st'\<rparr>"
    apply (rule exI[of _ c0], rule exI[of _ cs], rule exI[of _ n])
    using c n(1) d res st' ck by simp
next
  let ?RS = "regs_in st reg"
  assume "\<exists>c0 cs n. clock_in st = c0 # cs
      \<and> loop_exit msk val (c0 + 200) ?RS cs n (clock_in st')
      \<and> Suc n < length ?RS
      \<and> res = (if ?RS ! Suc n AND msk \<noteq> val then 1 else 0)
      \<and> st' = st\<lparr>regs_in := (regs_in st)(reg := drop (Suc (Suc n)) ?RS),
                 clock_in := clock_in st'\<rparr>"
  then obtain c0 cs n where c: "clock_in st = c0 # cs"
    and e: "loop_exit msk val (c0 + 200) ?RS cs n (clock_in st')"
    and k: "Suc n < length ?RS"
    and res: "res = (if ?RS ! Suc n AND msk \<noteq> val then 1 else 0)"
    and st': "st' = st\<lparr>regs_in := (regs_in st)(reg := drop (Suc (Suc n)) ?RS),
                 clock_in := clock_in st'\<rparr>"
    by blast
  from e have "wait_loop msk val (c0 + 200) ?RS cs = Some (drop (Suc n) ?RS, clock_in st')"
    unfolding wait_loop_iff by blast
  then have l: "wait_loop msk val (c0 + 200) ?RS cs
      = Some (?RS ! Suc n # drop (Suc (Suc n)) ?RS, clock_in st')"
    using Cons_nth_drop_Suc[OF k] by simp
  have "wait_timeout reg msk val st = Inr (res,
      st\<lparr>regs_in := (regs_in st)(reg := drop (Suc (Suc n)) ?RS), clock_in := clock_in st'\<rparr>)"
    using c l res by (simp add: wait_timeout_def TIMEOUT_def)
  with st' show "wait_timeout reg msk val st = Inr (res, st')" by simp
qed

text \<open>
  The theorem on a run that times out: CI reads 1 throughout and the clock reads 0, 100
  and 200. The loop ends after one round, at the clock reading 200, and the result is 1.
\<close>

theorem wait_timeout_result_witness:
  "wait_timeout CI 1 0 (wait_port [1, 1, 1] [0, 100, 200])
     = Inr (1, (wait_port [1, 1, 1] [0, 100, 200])\<lparr>regs_in := (\<lambda>_. [1, 1, 1])(CI := []), clock_in := []\<rparr>)
   \<and> loop_exit 1 0 200 [1, 1, 1] [100, 200] 1 []"
proof -
  let ?P = "wait_port [1, 1, 1] [0, 100, 200]"
  let ?P' = "?P\<lparr>regs_in := (\<lambda>_. [1, 1, 1])(CI := []), clock_in := []\<rparr>"
  have le: "loop_exit 1 0 (0 + 200) (regs_in ?P CI) [100, 200] 1 (clock_in ?P')"
    by (simp add: loop_exit_def polls_def wait_port_def)
  have "wait_timeout CI 1 0 ?P = Inr (1, ?P')"
    apply (rule wait_timeout_result[THEN iffD2])
    apply (rule exI[of _ 0], rule exI[of _ "[100, 200]"], rule exI[of _ 1])
    using le by (simp add: wait_port_def)
  moreover from le have "loop_exit 1 0 200 [1, 1, 1] [100, 200] 1 []"
    by (simp add: wait_port_def)
  ultimately show ?thesis by simp
qed

text \<open>
  C8 as stated fails, both ways. Timeout with result zero: CI reads 1 in the only round
  of the loop, the clock then reads 200 with the start reading 0, the loop ends, CI then
  reads 0 and \<^verbatim>\<open>wait_timeout\<close> returns 0. No timeout with a non-zero result: CI reads 0 in
  the loop, which ends without a look at the clock, then reads 1, and the result is 1.
\<close>

theorem wait_timeout_counterexample:
  "wait_loop 1 0 (0 + 200) [1, 0] [200] = Some ([0], [])
   \<and> (1 :: u32) AND 1 \<noteq> 0 \<and> \<not> (200 :: timevalue) < 0 + 200
   \<and> (\<exists>st'. wait_timeout CI 1 0 (wait_port [1, 0] [0, 200]) = Inr (0, st'))
   \<and> wait_loop 1 0 (0 + 200) [0, 1] [] = Some ([1], [])
   \<and> (\<exists>st'. wait_timeout CI 1 0 (wait_port [0, 1] [0]) = Inr (1, st'))"
  by (simp add: wait_timeout_def wait_port_def TIMEOUT_def)

section \<open>Completions\<close>

lemma bsf_props:
  assumes "dn \<noteq> 0"
  shows "bsf dn < 32" and "bit dn (bsf dn)" and "\<forall>n<bsf dn. \<not> bit dn n"
proof -
  show b: "bit dn (bsf dn)" using assms by (rule bsf_bit)
  then show l: "bsf dn < 32" using bit_imp_le_length[of dn "bsf dn"] by simp
  have "takeWhile (\<lambda>n. \<not> bit dn n) [0..<32] = take (bsf dn) [0..<32]"
    unfolding bsf_def by (rule takeWhile_eq_take)
  also have "\<dots> = [0..<bsf dn]" using l by (simp add: take_upt)
  finally have "set [0..<bsf dn] = set (takeWhile (\<lambda>n. \<not> bit dn n) [0..<32])" by simp
  then show "\<forall>n<bsf dn. \<not> bit dn n" using set_takeWhileD[of _ "\<lambda>n. \<not> bit dn n" "[0..<32]"]
    by (metis atLeastLessThan_iff set_upt zero_le)
qed

lemma bit_clear: "bit ((w::u32) AND NOT (push_bit k 1)) n \<longleftrightarrow> bit w n \<and> n \<noteq> k"
  by (auto simp add: bit_simps dest: bit_imp_le_length)

lemma bit_clear': "bit ((w::u32) AND NOT (2 ^ k)) n \<longleftrightarrow> bit w n \<and> n \<noteq> k"
  using bit_clear[of w k n] by simp

lemma bits_of_bsf:
  assumes "dn \<noteq> 0"
  shows "bits_of dn = bsf dn # bits_of (dn AND NOT (push_bit (bsf dn) 1))"
proof -
  note p = bsf_props[OF assms]
  let ?k = "bsf dn"
  have u: "[0..<32] = [0..<?k] @ ?k # [Suc ?k..<32]"
    using p(1) by (metis less_imp_le_nat upt_add_eq_append upt_conv_Cons le0 le_add_diff_inverse add_0)
  have 1: "filter (bit dn) [0..<?k] = []" using p(3) by (simp add: filter_empty_conv)
  have 2: "filter (bit (dn AND NOT (push_bit ?k 1))) [0..<?k] = []"
    using p(3) by (simp add: filter_empty_conv bit_clear bit_clear')
  have 3: "filter (bit (dn AND NOT (push_bit ?k 1))) [Suc ?k..<32] = filter (bit dn) [Suc ?k..<32]"
    by (rule filter_cong) (auto simp add: bit_clear bit_clear')
  have "bits_of dn = filter (bit dn) ([0..<?k] @ ?k # [Suc ?k..<32])"
    unfolding bits_of_def using u by simp
  also have "\<dots> = ?k # filter (bit dn) [Suc ?k..<32]" using 1 p(2) by simp
  also have "filter (bit dn) [Suc ?k..<32]
      = filter (bit (dn AND NOT (push_bit ?k 1))) ([0..<?k] @ ?k # [Suc ?k..<32])"
    using 2 3 by (simp add: bit_clear bit_clear')
  also have "\<dots> = bits_of (dn AND NOT (push_bit ?k 1))"
    unfolding bits_of_def using u by simp
  finally show ?thesis .
qed

lemma bits_of_0: "bits_of 0 = []"
  by (simp add: bits_of_def)

lemma irq_loop_result:
  "bus_commit (irq_loop dn st) = bus_commit st @
       map (\<lambda>t. MessageDiskCommit (port_disknr st) (usertags st t) DISK_OK) (bits_of dn)
   \<and> inprogress (irq_loop dn st) = inprogress st AND NOT dn
   \<and> usertags (irq_loop dn st) = (\<lambda>t. if bit dn t then NOT 0 else usertags st t)
   \<and> irq_loop dn st = st\<lparr>bus_commit := bus_commit (irq_loop dn st),
         usertags := usertags (irq_loop dn st), inprogress := inprogress (irq_loop dn st)\<rparr>"
proof (induction dn st rule: irq_loop.induct)
  case (1 dn st)
  show ?case
  proof (cases "dn = 0")
    case True
    then show ?thesis by (simp add: bits_of_0 irq_loop.simps[of 0])
  next
    case False
    let ?k = "bsf dn"
    let ?dn' = "dn AND NOT (push_bit ?k 1)"
    let ?st1 = "st\<lparr>bus_commit := bus_commit st @
                    [MessageDiskCommit (port_disknr st) (usertags st ?k) DISK_OK]\<rparr>"
    let ?st2 = "?st1\<lparr>usertags := (usertags ?st1)(?k := NOT 0)\<rparr>"
    let ?st3 = "?st2\<lparr>inprogress := inprogress ?st2 AND NOT (push_bit ?k 1)\<rparr>"
    have step: "irq_loop dn st = irq_loop ?dn' ?st3"
      using False by (subst irq_loop.simps) (simp add: Let_def)
    note ih0 = "1.IH"[OF False refl refl refl refl]
    have f3: "bus_commit ?st3 = bus_commit st @
                    [MessageDiskCommit (port_disknr st) (usertags st ?k) DISK_OK]"
      "usertags ?st3 = (usertags st)(?k := NOT 0)"
      "inprogress ?st3 = inprogress st AND NOT (push_bit ?k 1)"
      "port_disknr ?st3 = port_disknr st"
      by simp_all
    have ih1: "bus_commit (irq_loop ?dn' ?st3) = bus_commit ?st3 @
       map (\<lambda>t. MessageDiskCommit (port_disknr ?st3) (usertags ?st3 t) DISK_OK) (bits_of ?dn')"
      using ih0 by blast
    have ih2: "inprogress (irq_loop ?dn' ?st3) = inprogress ?st3 AND NOT ?dn'"
      using ih0 by blast
    have ih3: "usertags (irq_loop ?dn' ?st3) = (\<lambda>t. if bit ?dn' t then NOT 0 else usertags ?st3 t)"
      using ih0 by blast
    have ih4: "irq_loop ?dn' ?st3 = ?st3\<lparr>bus_commit := bus_commit (irq_loop ?dn' ?st3),
         usertags := usertags (irq_loop ?dn' ?st3), inprogress := inprogress (irq_loop ?dn' ?st3)\<rparr>"
      using ih0 by blast
    have nk: "\<forall>t\<in>set (bits_of ?dn'). t \<noteq> ?k"
      by (simp add: bits_of_def bit_clear bit_clear')
    have c: "bus_commit (irq_loop dn st) = bus_commit st @
       map (\<lambda>t. MessageDiskCommit (port_disknr st) (usertags st t) DISK_OK) (bits_of dn)"
      unfolding step bits_of_bsf[OF False] ih1 f3 using nk by simp
    have i: "inprogress (irq_loop dn st) = inprogress st AND NOT dn"
    proof -
      have "(inprogress st AND NOT (push_bit ?k 1)) AND NOT ?dn' = inprogress st AND NOT dn"
        using bsf_props(2)[OF False]
        by (intro bit_eqI) (auto simp add: bit_simps dest: bit_imp_le_length)
      then show ?thesis unfolding step ih2 f3 by simp
    qed
    have u: "usertags (irq_loop dn st) = (\<lambda>t. if bit dn t then NOT 0 else usertags st t)"
      unfolding step ih3 f3 using bsf_props(2)[OF False]
      by (auto simp add: bit_clear bit_clear' fun_eq_iff)
    have r: "irq_loop dn st = st\<lparr>bus_commit := bus_commit (irq_loop dn st),
         usertags := usertags (irq_loop dn st), inprogress := inprogress (irq_loop dn st)\<rparr>"
    proof -
      have "?st3\<lparr>bus_commit := bus_commit (irq_loop ?dn' ?st3),
         usertags := usertags (irq_loop ?dn' ?st3), inprogress := inprogress (irq_loop ?dn' ?st3)\<rparr>
        = st\<lparr>bus_commit := bus_commit (irq_loop ?dn' ?st3),
         usertags := usertags (irq_loop ?dn' ?st3), inprogress := inprogress (irq_loop ?dn' ?st3)\<rparr>"
        by simp
      with ih4 have "irq_loop ?dn' ?st3 = st\<lparr>bus_commit := bus_commit (irq_loop ?dn' ?st3),
         usertags := usertags (irq_loop ?dn' ?st3), inprogress := inprogress (irq_loop ?dn' ?st3)\<rparr>"
        by (rule trans)
      then show ?thesis unfolding step .
    qed
    from c i u r show ?thesis by blast
  qed
qed


lemma irq_completions:
  assumes "regs_in st IS = isv # r1" and "regs_in st CI = civ # r2"
    and "regs_in st TFD = tfdv # r3" and "tfdv AND 1 = 0"
  shows "\<exists>st'. irq buffer devdata st = Inr st'
     \<and> bus_commit st' = bus_commit st @
          map (\<lambda>t. MessageDiskCommit (port_disknr st) (usertags st t) DISK_OK)
            (bits_of (inprogress st AND NOT civ))
     \<and> inprogress st' = inprogress st AND NOT (inprogress st AND NOT civ)
     \<and> usertags st' = (\<lambda>t. if bit (inprogress st AND NOT civ) t then NOT 0 else usertags st t)
     \<and> regs_out st' = regs_out st @ [(IS, isv)] \<and> tag st' = tag st"
proof -
  let ?st3 = "st\<lparr>regs_in := (regs_in st)(IS := r1), regs_out := regs_out st @ [(IS, isv)],
                 regs_in := ((regs_in st)(IS := r1))(CI := r2)\<rparr>"
  let ?st4 = "irq_loop (inprogress st AND NOT civ) ?st3"
  note l = irq_loop_result[of "inprogress st AND NOT civ" ?st3]
  from l have l4: "?st4 = ?st3\<lparr>bus_commit := bus_commit ?st4,
         usertags := usertags ?st4, inprogress := inprogress ?st4\<rparr>" by blast
  have c: "bus_commit ?st4 = bus_commit st @
          map (\<lambda>t. MessageDiskCommit (port_disknr st) (usertags st t) DISK_OK)
            (bits_of (inprogress st AND NOT civ))"
    using l[THEN conjunct1] by simp
  have i: "inprogress ?st4 = inprogress st AND NOT (inprogress st AND NOT civ)"
    using l[THEN conjunct2, THEN conjunct1] by simp
  have u: "usertags ?st4 = (\<lambda>t. if bit (inprogress st AND NOT civ) t then NOT 0 else usertags st t)"
    using l[THEN conjunct2, THEN conjunct2, THEN conjunct1] by (simp cong: if_cong)
  have r: "regs_in ?st4 = ((regs_in st)(IS := r1))(CI := r2)"
    using arg_cong[OF l4, of regs_in] by simp
  have o: "regs_out ?st4 = regs_out st @ [(IS, isv)]"
    using arg_cong[OF l4, of regs_out] by simp
  have tg: "tag ?st4 = tag st"
    using arg_cong[OF l4, of tag] by simp
  let ?st5 = "?st4\<lparr>regs_in := (regs_in ?st4)(TFD := r3)\<rparr>"
  have "irq buffer devdata st = Inr ?st5"
    using assms r by (simp add: irq_def read_reg_def write_reg_def bindE_def Let_def)
  moreover have "bus_commit ?st5 = bus_commit st @
          map (\<lambda>t. MessageDiskCommit (port_disknr st) (usertags st t) DISK_OK)
            (bits_of (inprogress st AND NOT civ))" using c by simp
  moreover have "inprogress ?st5 = inprogress st AND NOT (inprogress st AND NOT civ)"
    using i by simp
  moreover have "usertags ?st5 = (\<lambda>t. if bit (inprogress st AND NOT civ) t then NOT 0 else usertags st t)"
    using u by simp
  moreover have "regs_out ?st5 = regs_out st @ [(IS, isv)]" using o by simp
  moreover have "tag ?st5 = tag st" using tg by simp
  ultimately show ?thesis by blast
qed

text \<open>
  C1 at a FLUSH_CACHE and, beside it, at a READ, both with caller tag 0xabcd on
  \<open>irq_port\<close>. Each is accepted into slot 0 and completed by the next interrupt with one
  commit message; the READ's carries 0xabcd, the FLUSH_CACHE's carries 0: \<^verbatim>\<open>receive\<close>
  calls \<^verbatim>\<open>start_command(0)\<close> for it where the READ/WRITE branch passes \<^verbatim>\<open>msg.usertag\<close>.
  What the interrupt does with the completed slots, whatever filled them, is
  \<open>irq_completions\<close> above.
\<close>

theorem flush_commit_tag:
  "usertag flush_abcd = 0xabcd
   \<and> (\<exists>st1 st2. receive flush_abcd irq_port = Inr (True, st1) \<and> inprogress st1 = 1
         \<and> irq 0 (\<lambda>_. 0) st1 = Inr st2 \<and> bus_commit st2 = [MessageDiskCommit 0 0 DISK_OK]
         \<and> inprogress st2 = 0)
   \<and> usertag read_4096 = 0xabcd
   \<and> (\<exists>st1 st2. receive read_4096 irq_port = Inr (True, st1) \<and> inprogress st1 = 1
         \<and> irq 0 (\<lambda>_. 0) st1 = Inr st2 \<and> bus_commit st2 = [MessageDiskCommit 0 0xabcd DISK_OK]
         \<and> inprogress st2 = 0)"
proof -
  have b: "bits_of 1 = [0]"
  proof -
    have "bits_of 1 = filter (\<lambda>n. n = 0) [0..<32]"
      unfolding bits_of_def by (rule filter_cong) (simp_all add: bit_1_iff)
    also have "\<dots> = filter (\<lambda>n. n = 0) (0 # [1..<32])" by (simp add: upt_conv_Cons)
    also have "\<dots> = [0]" by (simp add: filter_empty_conv)
    finally show ?thesis .
  qed
  have p: "tag irq_port < 32" "disknr flush_abcd = port_disknr irq_port"
    "mtype flush_abcd = DISK_FLUSH_CACHE" "tag irq_port = 0" "inprogress irq_port = 0"
    "disknr read_4096 = port_disknr irq_port" "port_disknr irq_port = 0"
    "bus_commit irq_port = []"
    by (simp_all add: irq_port_def fresh_port_def HostAhciPort_def zero_port_def flush_abcd_def
        read_4096_def)
  have "\<exists>st'. receive flush_abcd irq_port = Inr (True, st')"
    by (simp add: eval_defs flush_abcd_def irq_port_def)
  then obtain s1 where 1: "receive flush_abcd irq_port = Inr (True, s1)" by blast
  note f = start_command_result(3)[OF flush_tables(4)[OF p(1) 1 p(2,3)]]
  have s1: "regs_in s1 IS = [1]" "regs_in s1 CI = [0]" "regs_in s1 TFD = [0x50]"
    "inprogress s1 = 1" "usertags s1 0 = 0" "port_disknr s1 = 0" "bus_commit s1 = []"
    using arg_cong[OF f, of regs_in] arg_cong[OF f, of inprogress] arg_cong[OF f, of usertags]
      arg_cong[OF f, of port_disknr] arg_cong[OF f, of bus_commit] p
    by (simp_all add: irq_port_def fresh_port_def HostAhciPort_def zero_port_def)
  from irq_completions[OF s1(1,2,3), of "0" "\<lambda>_. 0"] obtain s2 where
    2: "irq 0 (\<lambda>_. 0) s1 = Inr s2" "bus_commit s2 = [MessageDiskCommit 0 0 DISK_OK]"
       "inprogress s2 = 0"
    using s1 b by auto
  have "\<exists>st'. receive read_4096 irq_port = Inr (True, st')"
    by (simp add: eval_defs read_4096_def irq_port_def)
  then obtain t1 where 3: "receive read_4096 irq_port = Inr (True, t1)" by blast
  have al: "512 dvd (\<Sum>d\<leftarrow>dma read_4096. unat (bytecount d))" by (simp add: read_4096_def)
  from 3 p have rw: "receive_rw read_4096 irq_port = Inr (True, t1)"
    by (simp add: receive_def read_4096_def)
  from receive_rw_steps[OF rw al] obtain x1 x2 where
    x: "tables_only irq_port x2 \<or> True" "start_command (usertag read_4096) x2 = Inr (tag x2, t1)"
       "dma_loop read_4096 (dma read_4096) x1 = Inr (True, x2)"
       "set_command (if mtype read_4096 = DISK_WRITE then if lba48 (params irq_port) then 0x35 else 0xca
          else if lba48 (params irq_port) then 0x25 else 0xc8) (sector read_4096)
          (mtype read_4096 \<noteq> DISK_WRITE) (drop_bit 9 (sum_length (dma read_4096))) False 0 0 irq_port = Inr x1"
    by auto
  have to1: "tables_only irq_port x1" using set_command_result(1)[OF p(1) x(4)] .
  have tg1: "tag x1 < 32" using tables_only_fields(1)[OF to1] p by simp
  have p1: "unat (prd_count x1) = 0" using set_command_result(5)[OF p(1) x(4)] by simp
  have to2: "tables_only x1 x2" using dma_loop_result[OF tg1 x(3) p1] by simp
  have to: "tables_only irq_port x2" using to1 to2 by (rule tables_only_trans)
  note g = start_command_result(3)[OF x(2)]
  note tf = tables_only_fields[OF to]
  have t1: "regs_in t1 IS = [1]" "regs_in t1 CI = [0]" "regs_in t1 TFD = [0x50]"
    "inprogress t1 = 1" "usertags t1 0 = 0xabcd" "port_disknr t1 = 0" "bus_commit t1 = []"
    using arg_cong[OF g, of regs_in] arg_cong[OF g, of inprogress] arg_cong[OF g, of usertags]
      arg_cong[OF g, of port_disknr] arg_cong[OF g, of bus_commit] p tf
    by (simp_all add: irq_port_def fresh_port_def HostAhciPort_def zero_port_def read_4096_def)
  from irq_completions[OF t1(1,2,3), of "0" "\<lambda>_. 0"] obtain t2 where
    4: "irq 0 (\<lambda>_. 0) t1 = Inr t2" "bus_commit t2 = [MessageDiskCommit 0 0xabcd DISK_OK]"
       "inprogress t2 = 0"
    using t1 b by auto
  have u: "usertag flush_abcd = 0xabcd" "usertag read_4096 = 0xabcd"
    by (simp_all add: flush_abcd_def read_4096_def)
  from 1 2 3 4 s1(4) t1(4) u show ?thesis by blast
qed

section \<open>Initialisation and IDENTIFY\<close>

lemma bindE_InrE:
  assumes "bindE m f = Inr y"
  obtains x where "m = Inr x" and "f x = Inr y"
  using assms by (cases m) (simp_all add: bindE_def)

lemma check2_InrE:
  assumes "check2 m k = Inr (r, st')"
  obtains (stop) "m = Inr (r, st')" and "r \<noteq> 0"
    | (go) st1 where "m = Inr (0, st1)" and "k st1 = Inr (r, st')"
  using assms unfolding check2_def bindE_def
  by (cases m) (auto split: if_splits)

lemma io_only_refl: "io_only st st"
  by (simp add: io_only_def)

lemma io_only_trans: "io_only a b \<Longrightarrow> io_only b c \<Longrightarrow> io_only a c"
  unfolding io_only_def
proof -
  assume 1: "b = a\<lparr>regs_in := regs_in b, regs_out := regs_out b, clock_in := clock_in b\<rparr>"
    and 2: "c = b\<lparr>regs_in := regs_in c, regs_out := regs_out c, clock_in := clock_in c\<rparr>"
  have "b\<lparr>regs_in := regs_in c, regs_out := regs_out c, clock_in := clock_in c\<rparr>
      = (a\<lparr>regs_in := regs_in b, regs_out := regs_out b, clock_in := clock_in b\<rparr>)
          \<lparr>regs_in := regs_in c, regs_out := regs_out c, clock_in := clock_in c\<rparr>"
    by (rule arg_cong[OF 1])
  also have "\<dots> = a\<lparr>regs_in := regs_in c, regs_out := regs_out c, clock_in := clock_in c\<rparr>"
    by simp
  finally show "c = a\<lparr>regs_in := regs_in c, regs_out := regs_out c, clock_in := clock_in c\<rparr>"
    using 2 by simp
qed

lemma io_only_fields:
  assumes "io_only st st'"
  shows "tag st' = tag st" "inprogress st' = inprogress st" "usertags st' = usertags st"
    "cl st' = cl st" "ct st' = ct st" "max_slots st' = max_slots st"
    "bus_commit st' = bus_commit st" "bus_hostop st' = bus_hostop st"
    "params st' = params st" "dmar st' = dmar st"
    "port_disknr st' = port_disknr st" "ct_ptr st' = ct_ptr st" "cl_ptr st' = cl_ptr st"
    "fis_ptr st' = fis_ptr st" "update_params st' = update_params st"
proof -
  from assms have e: "st' = st\<lparr>regs_in := regs_in st', regs_out := regs_out st',
      clock_in := clock_in st'\<rparr>" by (simp only: io_only_def)
  show "tag st' = tag st" using arg_cong[OF e, of tag] by simp
  show "inprogress st' = inprogress st" using arg_cong[OF e, of inprogress] by simp
  show "usertags st' = usertags st" using arg_cong[OF e, of usertags] by simp
  show "cl st' = cl st" using arg_cong[OF e, of cl] by simp
  show "ct st' = ct st" using arg_cong[OF e, of ct] by simp
  show "max_slots st' = max_slots st" using arg_cong[OF e, of max_slots] by simp
  show "bus_commit st' = bus_commit st" using arg_cong[OF e, of bus_commit] by simp
  show "bus_hostop st' = bus_hostop st" using arg_cong[OF e, of bus_hostop] by simp
  show "params st' = params st" using arg_cong[OF e, of params] by simp
  show "dmar st' = dmar st" using arg_cong[OF e, of dmar] by simp
  show "port_disknr st' = port_disknr st" using arg_cong[OF e, of port_disknr] by simp
  show "ct_ptr st' = ct_ptr st" using arg_cong[OF e, of ct_ptr] by simp
  show "cl_ptr st' = cl_ptr st" using arg_cong[OF e, of cl_ptr] by simp
  show "fis_ptr st' = fis_ptr st" using arg_cong[OF e, of fis_ptr] by simp
  show "update_params st' = update_params st" using arg_cong[OF e, of update_params] by simp
qed

lemma read_reg_io: "read_reg r st = Inr (v, st') \<Longrightarrow> io_only st st'"
  by (auto simp: read_reg_def io_only_def split: list.splits)

lemma write_reg_io: "io_only st (write_reg r v st)"
  by (simp add: write_reg_def io_only_def)

lemma modify_reg_io: "modify_reg r f st = Inr st' \<Longrightarrow> io_only st st'"
  unfolding modify_reg_def
  by (erule bindE_InrE) (auto simp: read_reg_def io_only_def write_reg_def split: list.splits)

lemma wait_timeout_io: "wait_timeout r m v st = Inr (res, st') \<Longrightarrow> io_only st st'"
  by (auto simp: wait_timeout_def io_only_def Let_def split: list.splits option.splits)

lemma init_stop_io: "init_stop st = Inr (r, st') \<Longrightarrow> io_only st st'"
  unfolding init_stop_def
  apply (erule bindE_InrE)
  apply (auto split: if_splits elim!: bindE_InrE check2_InrE
      dest!: read_reg_io modify_reg_io wait_timeout_io)
         apply (blast intro: io_only_trans)+
  done


lemma write_chain_io: "io_only st a \<Longrightarrow> io_only st (write_reg r v a)"
  by (blast intro: io_only_trans write_reg_io)

lemma init_regs_result:
  assumes "init_regs st = Inr (r, st')"
  shows "\<exists>s. io_only st s \<and> st' = (if r = 0 then s\<lparr>inprogress := 0\<rparr> else s)"
proof -
  from assms obtain v1 v2 st6 where
    m6: "modify_reg CMD (\<lambda>v. v OR 0x10)
        (write_reg IS (NOT 0) (write_reg SERR (NOT 0) (write_reg FBU 0 (write_reg FB v2
          (write_reg CLBU 0 (write_reg CLB v1 st)))))) = Inr st6"
    and c6: "check2 (wait_timeout CMD (push_bit 15 1) 0 st6) (\<lambda>st7.
     bindE (modify_reg CMD (\<lambda>v. v OR 0x8) st7) (\<lambda>st8.
     check2 (wait_timeout CMD 0x8 0 st8) (\<lambda>st9.
     bindE (modify_reg CMD (\<lambda>v. v OR 0x1) st9) (\<lambda>st10.
       Inr (0, write_reg IE 0xf98000f1 (st10\<lparr>inprogress := 0\<rparr>)))))) = Inr (r, st')"
    unfolding init_regs_def Let_def by (elim bindE_InrE) blast
  have "io_only st (write_reg IS (NOT 0) (write_reg SERR (NOT 0) (write_reg FBU 0
        (write_reg FB v2 (write_reg CLBU 0 (write_reg CLB v1 st))))))"
    by (intro write_chain_io io_only_refl)
  with modify_reg_io[OF m6] have 6: "io_only st st6" by (blast intro: io_only_trans)
  from c6 show ?thesis
  proof (cases rule: check2_InrE)
    case stop
    with 6 have "io_only st st'" by (blast intro: io_only_trans dest: wait_timeout_io)
    with stop show ?thesis by auto
  next
    case (go st7)
    from go(2) obtain st8 where m8: "modify_reg CMD (\<lambda>v. v OR 0x8) st7 = Inr st8"
      and c8: "check2 (wait_timeout CMD 0x8 0 st8) (\<lambda>st9.
         bindE (modify_reg CMD (\<lambda>v. v OR 0x1) st9) (\<lambda>st10.
           Inr (0, write_reg IE 0xf98000f1 (st10\<lparr>inprogress := 0\<rparr>)))) = Inr (r, st')"
      by (elim bindE_InrE) blast
    from 6 go(1) m8 have 8: "io_only st st8"
      by (blast intro: io_only_trans dest: wait_timeout_io modify_reg_io)
    from c8 show ?thesis
    proof (cases rule: check2_InrE)
      case stop
      with 8 have "io_only st st'" by (blast intro: io_only_trans dest: wait_timeout_io)
      with stop show ?thesis by auto
    next
      case (go st9)
      from go(2) obtain st10 where m10: "modify_reg CMD (\<lambda>v. v OR 0x1) st9 = Inr st10"
        and f: "Inr (0, write_reg IE 0xf98000f1 (st10\<lparr>inprogress := 0\<rparr>)) = Inr (r, st')"
        by (elim bindE_InrE) blast
      from 8 go(1) m10 have "io_only st st10"
        by (blast intro: io_only_trans dest: wait_timeout_io modify_reg_io)
      then have "io_only st (write_reg IE 0xf98000f1 st10)" by (rule write_chain_io)
      moreover from f have "r = 0" by simp
      moreover from f have "st' = write_reg IE 0xf98000f1 (st10\<lparr>inprogress := 0\<rparr>)" by simp
      then have "st' = (write_reg IE 0xf98000f1 st10)\<lparr>inprogress := 0\<rparr>"
        by (simp add: write_reg_def)
      ultimately show ?thesis by auto
    qed
  qed
qed





lemmas init_defs = init_stop_def init_regs_def init_def identify_drive_def modify_reg_def
  read_reg_def check2_def wait_timeout_def TIMEOUT_def add_prd_def irq_def






text \<open>
  The wait is real: on a port whose CI keeps the bit of the slot set until the clock has
  passed the timeout, \<^verbatim>\<open>init\<close> returns 1 after the CI write, with the bit of the slot
  still set in \<^verbatim>\<open>_inprogress\<close>; when CI has no reading left, the run does not return.
\<close>

lemma identify_wait_timeout:
  "\<exists>st'. init 0x7000 identify_data
       ((wait_port [0, 0, 0, 0, 0, 0, 0, 0] [0, 0, 0, 200])
          \<lparr>regs_in := (\<lambda>_. [0, 0, 0, 0, 0, 0, 0, 0])(CI := [1, 1])\<rparr>) = Inr (1, st')
     \<and> last (regs_out st') = (CI, 1) \<and> inprogress st' = 1 \<and> regs_in st' CI = []"
  "init 0x7000 identify_data
       ((wait_port [0, 0, 0, 0, 0, 0, 0, 0] [0, 0, 0])
          \<lparr>regs_in := (\<lambda>_. [0, 0, 0, 0, 0, 0, 0, 0])(CI := [])\<rparr>) = Inl TraceEnd"
  by (simp_all add: wait_port_def eval_defs init_defs identify_data_def)


section \<open>The slot invariant\<close>

lemma below_iff:
  "(w::u32) AND NOT (push_bit n 1 - 1) = 0 \<longleftrightarrow> (\<forall>k. bit w k \<longrightarrow> k < n)"
proof -
  have m: "push_bit n 1 - 1 = (mask n :: u32)" by (simp add: mask_eq_exp_minus_1)
  show ?thesis
    unfolding m
  proof
    assume a: "w AND NOT (mask n) = 0"
    show "\<forall>k. bit w k \<longrightarrow> k < n"
    proof (intro allI impI)
      fix k assume k: "bit w k"
      have "\<not> bit (w AND NOT (mask n)) k" unfolding a by simp
      with k show "k < n" by (auto simp add: bit_simps dest: bit_imp_le_length)
    qed
  next
    assume "\<forall>k. bit w k \<longrightarrow> k < n"
    then show "w AND NOT (mask n) = 0"
      by (intro bit_eqI) (auto simp add: bit_simps)
  qed
qed

lemma length_filter_less: "length (filter (\<lambda>k. k < n) [0..<m]) \<le> min n m"
  by (induction m) auto

lemma popcount_below:
  assumes "\<forall>k. bit w k \<longrightarrow> k < n"
  shows "popcount w \<le> n"
proof -
  have "bits_of w = filter (bit w) (filter (\<lambda>k. k < n) [0..<32])"
    unfolding bits_of_def filter_filter using assms by (intro filter_cong) auto
  then have "popcount w = length (filter (bit w) (filter (\<lambda>k. k < n) [0..<32]))"
    unfolding popcount_def by (rule arg_cong)
  also have "\<dots> \<le> length (filter (\<lambda>k. k < n) [0..<32])"
    by (rule length_filter_le)
  finally have "popcount w \<le> length (filter (\<lambda>k. k < n) [0..<32])" .
  then show ?thesis using length_filter_less[of n 32] by simp
qed

lemma port_inv_slots: "port_inv st \<Longrightarrow> slots_inv st"
  unfolding port_inv_def slots_inv_def using popcount_below below_iff by blast

lemma cap_max_slots_range: "1 \<le> cap_max_slots cap \<and> cap_max_slots cap \<le> 32"
proof -
  have m: "(0x1f::u32) = mask 5" by (simp add: mask_eq_exp_minus_1)
  have "unat (drop_bit 8 cap AND 0x1f) < 32"
    unfolding m by (simp add: unsigned_take_bit_eq take_bit_eq_mod unat_mod flip: take_bit_eq_mask)
  then have "unat (cap_max_slots cap) = unat (drop_bit 8 cap AND 0x1f) + 1"
    unfolding cap_max_slots_def by (simp add: unat_word_ariths)
  with \<open>unat (drop_bit 8 cap AND 0x1f) < 32\<close> show ?thesis
    by (simp add: word_le_nat_alt)
qed


lemma port_inv_sub:
  assumes "port_inv a" and "max_slots b = max_slots a" and "tag b = tag a"
    and "inprogress b = inprogress a AND x"
  shows "port_inv b"
proof -
  from assms(1) have "\<forall>k. bit (inprogress a) k \<longrightarrow> k < unat (max_slots a)"
    unfolding port_inv_def below_iff by blast
  then have "\<forall>k. bit (inprogress a AND x) k \<longrightarrow> k < unat (max_slots a)"
    by (simp add: bit_simps)
  then have "(inprogress a AND x) AND NOT (push_bit (unat (max_slots a)) 1 - 1) = 0"
    unfolding below_iff .
  with assms show ?thesis unfolding port_inv_def by simp
qed

lemma port_inv_same:
  assumes "port_inv a" and "max_slots b = max_slots a" and "tag b = tag a"
    and "inprogress b = inprogress a"
  shows "port_inv b"
  using port_inv_sub[OF assms(1,2,3), of "inprogress a"] assms(4) by simp

lemma port_inv_tables: "port_inv st \<Longrightarrow> tables_only st st' \<Longrightarrow> port_inv st'"
  using tables_only_fields(1,2,9)[of st st'] by (blast intro: port_inv_same)

lemma port_inv_io: "port_inv st \<Longrightarrow> io_only st st' \<Longrightarrow> port_inv st'"
  using io_only_fields(1,2,6)[of st st'] by (blast intro: port_inv_same)

lemma port_inv_clear: "port_inv st \<Longrightarrow> port_inv (st\<lparr>inprogress := inprogress st AND x\<rparr>)"
  by (rule port_inv_sub[of st _ x]) simp_all

lemma port_inv_zero: "port_inv st \<Longrightarrow> port_inv (st\<lparr>inprogress := 0\<rparr>)"
  by (rule port_inv_sub[of st _ 0]) simp_all

lemma port_inv_params: "port_inv st \<Longrightarrow> port_inv (st\<lparr>params := p\<rparr>)"
  by (rule port_inv_same[of st]) simp_all

lemma start_command_inv:
  assumes i: "port_inv st" and s: "start_command u st = Inr (t, st')"
  shows "port_inv st'"
proof -
  note r = start_command_result[OF s]
  from i have m: "1 \<le> max_slots st" "max_slots st \<le> 32" "tag st < max_slots st"
    and b: "\<forall>k. bit (inprogress st) k \<longrightarrow> k < unat (max_slots st)"
    unfolding port_inv_def below_iff by blast+
  have f: "max_slots st' = max_slots st" "tag st' = (tag st + 1) mod max_slots st"
    "inprogress st' = inprogress st OR push_bit (unat (tag st)) 1"
    using arg_cong[OF r(3), of max_slots] arg_cong[OF r(3), of tag]
      arg_cong[OF r(3), of inprogress] by simp_all
  have "0 < max_slots st" using r(2) by (simp add: word_neq_0_conv)
  then have 1: "tag st' < max_slots st'" unfolding f by (rule word_mod_less_divisor)
  have "unat (tag st) < unat (max_slots st)" using m(3) by (simp add: word_less_nat_alt)
  then have "\<forall>k. bit (inprogress st OR push_bit (unat (tag st)) (1::u32)) k \<longrightarrow> k < unat (max_slots st)"
    using b by (auto simp add: bit_simps)
  then have 2: "inprogress st' AND NOT (push_bit (unat (max_slots st')) 1 - 1) = 0"
    unfolding f below_iff .
  from m 1 2 f(1) show ?thesis unfolding port_inv_def by simp
qed

lemma set_command_tables: "set_command c s r n a p f st = Inr st1 \<Longrightarrow> tables_only st st1"
  by (auto simp: set_command_def Let_def tables_only_def elim!: bindE_InrE)

lemma add_prd_tables: "add_prd b c st = Inr (r, st') \<Longrightarrow> tables_only st st'"
  by (auto simp: add_prd_def Let_def tables_only_def elim!: bindE_InrE split: if_splits)

lemma add_dma_tables: "add_dma b c st = Inr (r, st') \<Longrightarrow> tables_only st st'"
  by (auto simp: add_dma_def Let_def tables_only_def elim!: bindE_InrE split: if_splits)

lemma dma_loop_tables: "dma_loop msg ds st = Inr (ok, st') \<Longrightarrow> tables_only st st'"
proof (induction ds arbitrary: st)
  case Nil
  then show ?case by (simp add: tables_only_refl)
next
  case (Cons d ds)
  show ?case
  proof (cases "byteoffset d > physsize msg \<or> byteoffset d + bytecount d > physsize msg")
    case True
    with Cons.prems show ?thesis by (simp add: tables_only_refl)
  next
    case False
    with Cons.prems obtain b st1 where
      a: "add_dma (physoffset msg + byteoffset d) (bytecount d) st = Inr (b, st1)"
      and l: "(if b then Inr (False, st1) else dma_loop msg ds st1) = Inr (ok, st')"
      by (auto elim!: bindE_InrE)
    from l have "tables_only st1 st'"
      using Cons.IH[of st1] by (cases b) (simp_all add: tables_only_refl)
    with add_dma_tables[OF a] show ?thesis by (rule tables_only_trans)
  qed
qed


lemma bindE_pair_InrE:
  assumes "bindE m (\<lambda>(a, b). f a b) = Inr y"
  obtains a b where "m = Inr (a, b)" and "f a b = Inr y"
  using assms by (cases m) (auto simp add: bindE_def)

lemma identify_drive_inv:
  assumes i: "port_inv st" and r: "identify_drive buffer devdata st = Inr (r, st')"
  shows "port_inv st'"
  using r unfolding identify_drive_def Let_def
proof (elim bindE_pair_InrE bindE_InrE)
  fix st1 b st2 t st3
  assume 1: "set_command 0xec 0 True 0 False 0 0 st = Inr st1"
    and 2: "add_prd buffer 512 st1 = Inr (b, st2)"
    and 3: "start_command 0 st2 = Inr (t, st3)"
    and 4: "check2 (wait_timeout CI (push_bit (unat t) 1) 0 st3)
        (\<lambda>st4. if devdata 2 \<noteq> 0xc837 then Inl AssertFailed
           else case update_params (st4\<lparr>inprogress := inprogress st4 AND NOT (push_bit (unat t) 1)\<rparr>)
                  devdata of
                (res, p) \<Rightarrow> Inr (res, st4\<lparr>inprogress := inprogress st4 AND NOT (push_bit (unat t) 1),
                                       params := p\<rparr>)) = Inr (r, st')"
  from i 1 2 have "port_inv st2"
    by (blast intro: port_inv_tables dest: set_command_tables add_prd_tables)
  then have 5: "port_inv st3" using 3 by (rule start_command_inv)
  from 4 show "port_inv st'"
  proof (cases rule: check2_InrE)
    case stop
    with 5 show ?thesis by (blast intro: port_inv_io dest: wait_timeout_io)
  next
    case (go st4)
    from 5 go(1) have "port_inv st4" by (blast intro: port_inv_io dest: wait_timeout_io)
    then have "port_inv (st4\<lparr>inprogress := inprogress st4 AND NOT (push_bit (unat t) 1)\<rparr>)"
      by (rule port_inv_clear)
    with go(2) show ?thesis
      by (auto split: if_splits prod.splits intro: port_inv_params)
  qed
qed

lemma set_features_inv:
  assumes i: "port_inv st" and r: "set_features features cnt st = Inr (r, st')"
  shows "port_inv st'"
  using r unfolding set_features_def
proof (elim bindE_pair_InrE bindE_InrE)
  fix st1 t st2
  assume 1: "set_command 0xef 0 False cnt False 0 features st = Inr st1"
    and 3: "start_command 0 st1 = Inr (t, st2)"
    and 4: "check2 (wait_timeout CI (push_bit (unat t) 1) 0 st2)
       (\<lambda>st3. Inr (0, st3\<lparr>inprogress := inprogress st3 AND NOT (push_bit (unat t) 1)\<rparr>))
         = Inr (r, st')"
  from i 1 have "port_inv st1" by (blast intro: port_inv_tables dest: set_command_tables)
  then have 5: "port_inv st2" using 3 by (rule start_command_inv)
  from 4 show "port_inv st'"
  proof (cases rule: check2_InrE)
    case stop
    with 5 show ?thesis by (blast intro: port_inv_io dest: wait_timeout_io)
  next
    case (go st3)
    from 5 go(1) have "port_inv st3" by (blast intro: port_inv_io dest: wait_timeout_io)
    then have "port_inv (st3\<lparr>inprogress := inprogress st3 AND NOT (push_bit (unat t) 1)\<rparr>)"
      by (rule port_inv_clear)
    with go(2) show ?thesis by auto
  qed
qed

lemma init_inv:
  assumes i: "port_inv st" and r: "init buffer devdata st = Inr (r, st')"
  shows "port_inv st'"
  using r unfolding init_def
proof (cases rule: check2_InrE)
  case stop
  with i show ?thesis by (blast intro: port_inv_io dest: init_stop_io)
next
  case (go st1)
  from i go(1) have 1: "port_inv st1" by (blast intro: port_inv_io dest: init_stop_io)
  from go(2) show ?thesis
  proof (cases rule: check2_InrE)
    case stop
    from init_regs_result[OF stop(1)] stop(2) have "io_only st1 st'" by auto
    with 1 show ?thesis by (rule port_inv_io)
  next
    case (go st2)
    from init_regs_result[OF go(1)] obtain s where "io_only st1 s" "st2 = s\<lparr>inprogress := 0\<rparr>"
      by auto
    with 1 have "port_inv st2" by (blast intro: port_inv_io port_inv_zero)
    then show ?thesis using go(2) by (rule identify_drive_inv)
  qed
qed

lemma irq_loop_inv: "port_inv st \<Longrightarrow> port_inv (irq_loop dn st)"
proof -
  assume i: "port_inv st"
  note l = irq_loop_result[of dn st]
  from l have e: "irq_loop dn st = st\<lparr>bus_commit := bus_commit (irq_loop dn st),
         usertags := usertags (irq_loop dn st), inprogress := inprogress (irq_loop dn st)\<rparr>"
    by blast
  have "max_slots (irq_loop dn st) = max_slots st" "tag (irq_loop dn st) = tag st"
    using arg_cong[OF e, of max_slots] arg_cong[OF e, of tag] by simp_all
  moreover from l have "inprogress (irq_loop dn st) = inprogress st AND NOT dn" by blast
  ultimately show ?thesis using i by (blast intro: port_inv_sub)
qed

lemma irq_inv:
  assumes i: "port_inv st" and r: "irq buffer devdata st = Inr st'"
  shows "port_inv st'"
proof -
  from r obtain isv st1 civ st3 tfdv st5 where
    1: "read_reg IS st = Inr (isv, st1)"
    and 2: "read_reg CI (write_reg IS isv st1) = Inr (civ, st3)"
    and 3: "read_reg TFD (irq_loop (inprogress st3 AND NOT civ) st3) = Inr (tfdv, st5)"
    and 4: "(if tfdv AND 1 \<noteq> 0 then
         bindE (read_reg TFD st5) (\<lambda>(_, st6).
         bindE (init buffer devdata st6) (\<lambda>(_, st7). Inr st7))
       else Inr st5) = Inr st'"
    unfolding irq_def by (auto simp: Let_def elim!: bindE_InrE)
  from i 1 have "port_inv (write_reg IS isv st1)"
    by (blast intro: port_inv_io dest: read_reg_io intro: write_reg_io)
  with 2 have "port_inv st3" by (blast intro: port_inv_io dest: read_reg_io)
  then have "port_inv (irq_loop (inprogress st3 AND NOT civ) st3)" by (rule irq_loop_inv)
  with 3 have 5: "port_inv st5" by (blast intro: port_inv_io dest: read_reg_io)
  show ?thesis
  proof (cases "tfdv AND 1 \<noteq> 0")
    case False
    with 4 5 show ?thesis by simp
  next
    case True
    with 4 obtain v st6 r7 where 6: "read_reg TFD st5 = Inr (v, st6)"
      and 7: "init buffer devdata st6 = Inr (r7, st')"
      by (auto elim!: bindE_InrE)
    from 5 6 have "port_inv st6" by (blast intro: port_inv_io dest: read_reg_io)
    then show ?thesis using 7 by (rule init_inv)
  qed
qed

lemma receive_inv:
  assumes i: "port_inv st" and r: "receive msg st = Inr (r, st')"
  shows "port_inv st'"
proof (cases "disknr msg = port_disknr st")
  case False
  with r i show ?thesis by (simp add: receive_def)
next
  case d: True
  have rw: "port_inv st'" if "receive_rw msg st = Inr (r, st')"
  proof (cases "sum_length (dma msg) AND 0x1ff \<noteq> 0")
    case True
    with that i show ?thesis by (simp add: receive_rw_def)
  next
    case False
    with that obtain c st1 ok st2 where
      1: "set_command c (sector msg) (mtype msg \<noteq> DISK_WRITE) (drop_bit 9 (sum_length (dma msg)))
           False 0 0 st = Inr st1"
      and 2: "dma_loop msg (dma msg) st1 = Inr (ok, st2)"
      and 3: "(if \<not> ok then Inr (False, st2)
          else bindE (start_command (usertag msg) st2) (\<lambda>(_, st3). Inr (True, st3))) = Inr (r, st')"
      unfolding receive_rw_def by (auto simp: Let_def elim!: bindE_InrE)
    from i 1 2 have 4: "port_inv st2"
      by (blast intro: port_inv_tables dest: set_command_tables dma_loop_tables)
    show ?thesis
    proof (cases ok)
      case False
      with 3 4 show ?thesis by simp
    next
      case True
      with 3 obtain t where "start_command (usertag msg) st2 = Inr (t, st')"
        by (auto elim!: bindE_InrE)
      with 4 show ?thesis by (rule start_command_inv)
    qed
  qed
  show ?thesis
  proof (cases "mtype msg")
    case DISK_READ
    with r d rw show ?thesis by (simp add: receive_def)
  next
    case DISK_WRITE
    with r d rw show ?thesis by (simp add: receive_def)
  next
    case DISK_FLUSH_CACHE
    with r d obtain st1 t where
      "set_command (if lba48 (params st) then 0xea else 0xe7) 0 True 0 False 0 0 st = Inr st1"
      "start_command 0 st1 = Inr (t, st')"
      by (auto simp: receive_def elim!: bindE_InrE)
    with i show ?thesis
      by (blast intro: port_inv_tables start_command_inv dest: set_command_tables)
  next
    case DISK_GET_PARAMS
    with r d i show ?thesis by (simp add: receive_def)
  next
    case DISK_UNKNOWN
    with r d show ?thesis by (simp add: receive_def)
  qed
qed


lemma init_establishes:
  assumes m: "1 \<le> max_slots st" "max_slots st \<le> 32" "tag st < max_slots st"
    and s1: "init_stop st = Inr (0, st1)" and s2: "init_regs st1 = Inr (0, st2)"
    and r: "init buffer devdata st = Inr (r, st')"
  shows "port_inv st'"
proof -
  note a = io_only_fields[OF init_stop_io[OF s1]]
  from init_regs_result[OF s2] obtain s where s: "io_only st1 s" "st2 = s\<lparr>inprogress := 0\<rparr>"
    by auto
  note b = io_only_fields[OF s(1)]
  have "port_inv st2"
    unfolding port_inv_def using m a(1,6) b(1,6) s(2) by simp
  moreover have "identify_drive buffer devdata st2 = Inr (r, st')"
    using r by (simp add: init_def s1 s2 check2_def bindE_def)
  ultimately show ?thesis by (rule identify_drive_inv)
qed

lemma port_inv_preserved:
  assumes "port_inv st"
  shows "slots_inv st"
    and "start_command u st = Inr (t, s1) \<Longrightarrow> port_inv s1"
    and "identify_drive buffer devdata st = Inr (r2, s2) \<Longrightarrow> port_inv s2"
    and "set_features features cnt st = Inr (r3, s3) \<Longrightarrow> port_inv s3"
    and "init buffer devdata st = Inr (r4, s4) \<Longrightarrow> port_inv s4"
    and "irq buffer devdata st = Inr s5 \<Longrightarrow> port_inv s5"
    and "receive msg st = Inr (r6, s6) \<Longrightarrow> port_inv s6"
  using assms
  by (blast intro: port_inv_slots start_command_inv identify_drive_inv set_features_inv
      init_inv irq_inv receive_inv)+

text \<open>
  C7 after construction. The constructor initialises \<^verbatim>\<open>_tag\<close> and leaves \<^verbatim>\<open>_inprogress\<close>
  as the memory holds it: on \<open>stuck_port\<close>, with one slot, \<open>inprogress\<close> is 0xffffffff and
  the invariant fails. \<^verbatim>\<open>init\<close> resets \<open>inprogress\<close> only after its CMD waits; here the
  first wait times out, \<^verbatim>\<open>init\<close> returns 1 and the invariant still fails. From a state
  with \<open>port_inv\<close> every operation keeps it (\<open>port_inv_preserved\<close>), and an \<^verbatim>\<open>init\<close> that
  gets past its CMD waits establishes it (\<open>init_establishes\<close>).
\<close>

theorem constructor_inprogress:
  "max_slots stuck_port = 1 \<and> tag stuck_port = 0 \<and> inprogress stuck_port = 0xffffffff
   \<and> inprogress stuck_port AND NOT (push_bit (unat (max_slots stuck_port)) 1 - 1) = 0xfffffffe
   \<and> \<not> slots_inv stuck_port
   \<and> (\<exists>st'. init 0x7000 identify_data stuck_port = Inr (1, st')
         \<and> inprogress st' = 0xffffffff \<and> max_slots st' = 1 \<and> \<not> slots_inv st')"
  by (simp add: stuck_port_def raw_port_def cap_max_slots_def slots_inv_def eval_defs init_defs)

end
